theory Spec2Isabelle
  imports Complex_Main
begin

section \<open>The recursive cascade simulator (scripts/war\_simulator.py)\<close>

text \<open>
  The embedding follows \<^verbatim>\<open>WarSimulator\<close> of \<^verbatim>\<open>scripts/war_simulator.py\<close>.
  A pandas \<^verbatim>\<open>Series\<close> (one row of the data frame, the working \<^verbatim>\<open>current_state\<close>)
  is a map from labels to cells. A numeric cell holds a Python float, which is
  taken here as a real number: finite values, exact arithmetic. The other
  kinds of cell are the ones the training table has besides numbers: text (the
  \<^verbatim>\<open>name\<close> column) and dates (the \<^verbatim>\<open>date\<close> column, parsed by
  \<^verbatim>\<open>read_csv(..., parse_dates=['date'])\<close>: a timestamp, or \<open>NaT\<close> where the file has no
  date). Printing is left out.
\<close>

subsection \<open>Data\<close>

datatype cell = Num real | Text string | Timestamp int | NaT

type_synonym series = "string \<Rightarrow> cell option"

text \<open>
  The exceptions the simulator can raise:
  \<^item> \<open>CityNotFound\<close> is the \<^verbatim>\<open>ValueError(f"City '{city_name}' not found.")\<close> of
    \<^verbatim>\<open>get_city_state\<close>;
  \<^item> \<open>KeyError\<close> is what pandas raises when labels are absent from a Series; it carries
    the absent labels;
  \<^item> \<open>NotNumeric\<close> is the \<^verbatim>\<open>ValueError\<close>/\<^verbatim>\<open>TypeError\<close> of \<^verbatim>\<open>astype(float)\<close> or of
    float arithmetic on a text or timestamp cell.
\<close>

datatype error = CityNotFound string | KeyError "string list" | NotNumeric

text \<open>
  A loaded model: the feature names of its booster, in order, and its prediction as a
  function of the single input row (the values of these features in that order).
  \<^verbatim>\<open>self.df\<close> is the list of the rows of the table.
\<close>

record simulator =
  df :: "series list"
  feats_A :: "string list"
  predict_A :: "real list \<Rightarrow> real"
  feats_B :: "string list"
  predict_B :: "real list \<Rightarrow> real"
  feats_C :: "string list"
  predict_proba_C :: "real list \<Rightarrow> real"

datatype status = FREE | OCCUPIED

text \<open>One entry of \<^verbatim>\<open>history\<close>; the fields are the keys of the appended dict.\<close>

record snapshot =
  day :: int
  dist_to_front :: real
  delta_real :: real
  encirclement :: real
  prob_capture :: real
  status :: status

text \<open>The values one pass of the loop body computes, with the state it leaves.\<close>

record day_result =
  vec :: series
  new_dist :: real
  adjusted_delta :: real
  pred_encirclement :: real
  prob :: real

subsection \<open>Library operations the loop uses\<close>

text \<open>
  \<^verbatim>\<open>round(x, n)\<close>: to the nearest multiple of \<open>10 ^ -n\<close>, a tie going to the even
  neighbour.
\<close>

definition round_half_even :: "real \<Rightarrow> int" where
  "round_half_even x =
     (let f = \<lfloor>x\<rfloor>; r = x - of_int f
      in if r < 1 / 2 then f
         else if 1 / 2 < r then f + 1
         else if even f then f else f + 1)"

definition py_round :: "real \<Rightarrow> nat \<Rightarrow> real" where
  "py_round x n = of_int (round_half_even (x * 10 ^ n)) / 10 ^ n"

text \<open>\<^verbatim>\<open>np.clip(x, lo, hi)\<close>.\<close>

definition clip :: "real \<Rightarrow> real \<Rightarrow> real \<Rightarrow> real" where
  "clip x lo hi = min (max x lo) hi"

text \<open>\<^verbatim>\<open>Index.unique()\<close>: each label once, in the order of the first occurrences.\<close>

definition unique_labels :: "string list \<Rightarrow> string list" where
  "unique_labels xs = rev (remdups (rev xs))"

text \<open>
  The labels the \<^verbatim>\<open>KeyError\<close> of a selection names (\<^verbatim>\<open>_raise_if_missing\<close> of pandas):
  when none of the requested labels is in the index, the requested labels as they were
  given; otherwise the requested labels that are not in the index, each once.
\<close>

definition missing_labels :: "series \<Rightarrow> string list \<Rightarrow> string list" where
  "missing_labels s fs =
     (let not_found = filter (\<lambda>f. s f = None) fs
      in if length not_found = length fs then fs else unique_labels not_found)"

text \<open>
  \<^verbatim>\<open>current_state[feats]\<close>: selection by a list of labels; \<^verbatim>\<open>KeyError\<close> when a label is
  not in the index.
\<close>

definition select_labels :: "series \<Rightarrow> string list \<Rightarrow> error + cell list" where
  "select_labels s fs =
     (case those (map s fs) of
        None \<Rightarrow> Inl (KeyError (missing_labels s fs))
      | Some cells \<Rightarrow> Inr cells)"

text \<open>
  \<^verbatim>\<open>.astype(float)\<close> on the selected row: every cell has to be a number. A text cell
  is taken not to spell a number (the names of the cities do not), so it is refused, as
  a date is.
\<close>

fun astype_float :: "cell list \<Rightarrow> error + real list" where
  "astype_float [] = Inr []"
| "astype_float (Num x # cs) =
     (case astype_float cs of Inl e \<Rightarrow> Inl e | Inr xs \<Rightarrow> Inr (x # xs))"
| "astype_float (_ # cs) = Inl NotNumeric"

text \<open>\<^verbatim>\<open>current_state[feats].to_frame().T.astype(float)\<close>: the input row of a model.\<close>

definition model_input :: "series \<Rightarrow> string list \<Rightarrow> error + real list" where
  "model_input s fs =
     (case select_labels s fs of Inl e \<Rightarrow> Inl e | Inr cells \<Rightarrow> astype_float cells)"

text \<open>
  \<^verbatim>\<open>current_state[label]\<close> read as an operand of float arithmetic: \<^verbatim>\<open>KeyError\<close> when
  the label is absent, a type error when the cell is not a number.
\<close>

definition get_num :: "series \<Rightarrow> string \<Rightarrow> error + real" where
  "get_num s l =
     (case s l of
        None \<Rightarrow> Inl (KeyError [l])
      | Some (Num x) \<Rightarrow> Inr x
      | Some _ \<Rightarrow> Inl NotNumeric)"

subsection \<open>\<^verbatim>\<open>get_city_state\<close>\<close>

text \<open>A row whose date is a timestamp, and that timestamp.\<close>

definition dated :: "series \<Rightarrow> bool" where
  "dated r = (case r ''date'' of Some (Timestamp t) \<Rightarrow> True | _ \<Rightarrow> False)"

definition date_of :: "series \<Rightarrow> int" where
  "date_of r = (case r ''date'' of Some (Timestamp t) \<Rightarrow> t | _ \<Rightarrow> 0)"

text \<open>
  \<^verbatim>\<open>sort_values('date')\<close>, with the default \<^verbatim>\<open>na_position='last'\<close>: the rows with a
  timestamp in ascending order, then the rows with no date. Rows with equal dates keep
  their order here; no property below depends on which of them comes last.
\<close>

definition sort_values_date :: "series list \<Rightarrow> series list" where
  "sort_values_date rows =
     sort_key date_of (filter dated rows) @ filter (\<lambda>r. \<not> dated r) rows"

definition get_city_state :: "simulator \<Rightarrow> string \<Rightarrow> error + series" where
  "get_city_state sim city_name =
     (let city_data = filter (\<lambda>r. r ''name'' = Some (Text city_name)) (df sim)
      in if city_data = [] then Inl (CityNotFound city_name)
         else Inr (last (sort_values_date city_data)))"

subsection \<open>\<^verbatim>\<open>run_simulation\<close>\<close>

definition modifiers :: "(string \<times> real) list" where
  "modifiers = [(''conservative'', 0.5), (''inertial'', 1.0), (''aggressive'', 1.5)]"

text \<open>\<^verbatim>\<open>modifiers.get(scenario, 1.0)\<close>.\<close>

definition modifier_of :: "string \<Rightarrow> real" where
  "modifier_of scenario = (case map_of modifiers scenario of Some m \<Rightarrow> m | None \<Rightarrow> 1.0)"

text \<open>
  The body of the loop up to the capture probability (lines 62 to 94), statement by
  statement. A write \<^verbatim>\<open>current_state[label] = v\<close> sets the label, adding it when the
  Series does not have it.
\<close>

definition day_step :: "simulator \<Rightarrow> real \<Rightarrow> series \<Rightarrow> error + day_result" where
  "day_step sim modifier s =
     (case model_input s (feats_A sim) of Inl e \<Rightarrow> Inl e | Inr input_A \<Rightarrow>
     (let pred_delta = predict_A sim input_A;
          adj = pred_delta * modifier
      in (case get_num s ''dist_to_front_m'' of Inl e \<Rightarrow> Inl e | Inr cur_dist \<Rightarrow>
     (let nd = max 0 (cur_dist - adj);
          s1 = s(''delta_dist_daily'' \<mapsto> Num adj)
      in (case get_num s1 ''momentum_7d'' of Inl e \<Rightarrow> Inl e | Inr m7 \<Rightarrow>
     (let s2 = s1(''momentum_7d'' \<mapsto> Num (m7 * 0.9 + adj * 0.1))
      in (case get_num s2 ''momentum_30d'' of Inl e \<Rightarrow> Inl e | Inr m30 \<Rightarrow>
     (let s3 = s2(''momentum_30d'' \<mapsto> Num (m30 * 0.95 + adj * 0.05));
          s4 = s3(''dist_to_front_m'' \<mapsto> Num nd)
      in (case model_input s4 (feats_B sim) of Inl e \<Rightarrow> Inl e | Inr input_B \<Rightarrow>
     (let enc = clip (predict_B sim input_B) 0 1;
          s5 = s4(''encirclement_score'' \<mapsto> Num enc)
      in (case model_input s5 (feats_C sim) of Inl e \<Rightarrow> Inl e | Inr input_C \<Rightarrow>
          Inr \<lparr>vec = s5, new_dist = nd, adjusted_delta = adj, pred_encirclement = enc,
               prob = predict_proba_C sim input_C\<rparr>)))))))))))"

text \<open>The dict appended to \<^verbatim>\<open>history\<close> (lines 96 to 107).\<close>

definition snapshot_of :: "int \<Rightarrow> day_result \<Rightarrow> snapshot" where
  "snapshot_of d r =
     \<lparr>day = d,
      dist_to_front = py_round (new_dist r) 0,
      delta_real = py_round (adjusted_delta r) 1,
      encirclement = py_round (pred_encirclement r) 3,
      prob_capture = py_round (prob r) 3,
      status = (if 0.5 < prob r then OCCUPIED else FREE)\<rparr>"

text \<open>
  \<^verbatim>\<open>for day in range(1, days + 1)\<close>, over the list of the days left. The loop returns
  the state it ends with beside the history; an exception ends it with no history.
\<close>

fun sim_loop ::
  "simulator \<Rightarrow> real \<Rightarrow> int list \<Rightarrow> series \<Rightarrow> snapshot list \<Rightarrow> error + (series \<times> snapshot list)"
where
  "sim_loop sim modifier [] s history = Inr (s, history)"
| "sim_loop sim modifier (d # ds) s history =
     (case day_step sim modifier s of
        Inl e \<Rightarrow> Inl e
      | Inr r \<Rightarrow>
          let history' = history @ [snapshot_of d r]
          in if 0.5 < prob r then Inr (vec r, history')
             else sim_loop sim modifier ds (vec r) history')"

text \<open>
  The result is \<open>None\<close> where the code returns \<^verbatim>\<open>None\<close> (the city is already occupied)
  and the history where it returns the data frame of the history.
\<close>

definition run_simulation ::
  "simulator \<Rightarrow> string \<Rightarrow> int \<Rightarrow> string \<Rightarrow> error + snapshot list option"
where
  "run_simulation sim city_name days scenario =
     (let modifier = modifier_of scenario
      in case get_city_state sim city_name of Inl e \<Rightarrow> Inl e | Inr current_state \<Rightarrow>
         (case current_state ''is_captured'' of
            None \<Rightarrow> Inl (KeyError [''is_captured''])
          | Some c \<Rightarrow>
              if c = Num 1 then Inr None
              else (case sim_loop sim modifier [1..days] current_state [] of
                      Inl e \<Rightarrow> Inl e
                    | Inr (s, history) \<Rightarrow> Inr (Some history))))"

subsection \<open>The capture probability of a given day\<close>

text \<open>
  \<open>capture_prob sim modifier s n\<close> is the capture probability the loop body computes
  on day \<open>n + 1\<close> of a run started on \<open>s\<close>, when the \<open>n\<close> days before it are carried out
  one after the other with no regard to their outcome. It is the quantity the
  \<^verbatim>\<open>prob_capture > 0.5\<close> test reads, before it is rounded for the history.
\<close>

fun capture_prob :: "simulator \<Rightarrow> real \<Rightarrow> series \<Rightarrow> nat \<Rightarrow> error + real" where
  "capture_prob sim modifier s 0 =
     (case day_step sim modifier s of Inl e \<Rightarrow> Inl e | Inr r \<Rightarrow> Inr (prob r))"
| "capture_prob sim modifier s (Suc n) =
     (case day_step sim modifier s of
        Inl e \<Rightarrow> Inl e
      | Inr r \<Rightarrow> capture_prob sim modifier (vec r) n)"

text \<open>
  \<open>state_after sim modifier s n\<close> is the working vector after \<open>n\<close> passes of the loop
  body from \<open>s\<close>, that is the vector day \<open>n + 1\<close> starts with.
\<close>

fun state_after :: "simulator \<Rightarrow> real \<Rightarrow> series \<Rightarrow> nat \<Rightarrow> error + series" where
  "state_after sim modifier s 0 = Inr s"
| "state_after sim modifier s (Suc n) =
     (case day_step sim modifier s of
        Inl e \<Rightarrow> Inl e
      | Inr r \<Rightarrow> state_after sim modifier (vec r) n)"

subsection \<open>The table and the working vector in memory\<close>

text \<open>
  The same program with its objects in a memory, to tell the rows of the table from the
  vector the loop writes to. The memory is the list of the Series objects, an address
  is an index into it, and \<^verbatim>\<open>self.df\<close> is the list of the addresses of its rows.
  \<^verbatim>\<open>city_data.sort_values('date').iloc[-1]\<close> is the address of a row of the table.
\<close>

definition get_city_row :: "nat list \<Rightarrow> series list \<Rightarrow> string \<Rightarrow> error + nat" where
  "get_city_row rows mem city_name =
     (let city_data = filter (\<lambda>i. (mem ! i) ''name'' = Some (Text city_name)) rows
      in if city_data = [] then Inl (CityNotFound city_name)
         else Inr (last (sort_key (\<lambda>i. date_of (mem ! i)) (filter (\<lambda>i. dated (mem ! i)) city_data)
                         @ filter (\<lambda>i. \<not> dated (mem ! i)) city_data)))"

text \<open>
  The loop on the object at address \<open>a\<close>: each pass reads the object and writes the
  five labels into it, in place.
\<close>

fun sim_loop_mem ::
  "simulator \<Rightarrow> real \<Rightarrow> int list \<Rightarrow> nat \<Rightarrow> series list \<Rightarrow> snapshot list
     \<Rightarrow> error + (series list \<times> snapshot list)"
where
  "sim_loop_mem sim modifier [] a mem history = Inr (mem, history)"
| "sim_loop_mem sim modifier (d # ds) a mem history =
     (case day_step sim modifier (mem ! a) of
        Inl e \<Rightarrow> Inl e
      | Inr r \<Rightarrow>
          let mem' = mem[a := vec r];
              history' = history @ [snapshot_of d r]
          in if 0.5 < prob r then Inr (mem', history')
             else sim_loop_mem sim modifier ds a mem' history')"

text \<open>
  \<^verbatim>\<open>run_simulation\<close> on the memory: \<^verbatim>\<open>.copy()\<close> puts a new object at the first free
  address, with the cells of the row found, and \<^verbatim>\<open>current_state\<close> is that address. The
  result comes with the memory the run leaves.
\<close>

definition run_simulation_mem ::
  "simulator \<Rightarrow> nat list \<Rightarrow> series list \<Rightarrow> string \<Rightarrow> int \<Rightarrow> string
     \<Rightarrow> error + (series list \<times> snapshot list option)"
where
  "run_simulation_mem sim rows mem city_name days scenario =
     (let modifier = modifier_of scenario
      in case get_city_row rows mem city_name of Inl e \<Rightarrow> Inl e | Inr row \<Rightarrow>
         (let current_state = length mem;
              mem1 = mem @ [mem ! row]
          in (case (mem1 ! current_state) ''is_captured'' of
                None \<Rightarrow> Inl (KeyError [''is_captured''])
              | Some c \<Rightarrow>
                  if c = Num 1 then Inr (mem1, None)
                  else (case sim_loop_mem sim modifier [1..days] current_state mem1 [] of
                          Inl e \<Rightarrow> Inl e
                        | Inr (mem2, history) \<Rightarrow> Inr (mem2, Some history)))))"

subsection \<open>Rows and stub predictors for the concrete runs\<close>

text \<open>A row of the table with the columns the loop reads and writes.\<close>

definition city_row :: "string \<Rightarrow> int \<Rightarrow> real \<Rightarrow> real \<Rightarrow> series" where
  "city_row n t d cap =
     [''name'' \<mapsto> Text n, ''date'' \<mapsto> Timestamp t, ''dist_to_front_m'' \<mapsto> Num d,
      ''encirclement_score'' \<mapsto> Num 0, ''pct_occupied'' \<mapsto> Num 0,
      ''delta_dist_daily'' \<mapsto> Num 0, ''momentum_7d'' \<mapsto> Num 0, ''momentum_30d'' \<mapsto> Num 0,
      ''is_captured'' \<mapsto> Num cap]"

text \<open>The same row with no date in the file.\<close>

definition undated_row :: "string \<Rightarrow> real \<Rightarrow> real \<Rightarrow> series" where
  "undated_row n d cap = (city_row n 0 d cap)(''date'' \<mapsto> NaT)"

text \<open>Three models that answer with a constant each.\<close>

definition stub_sim :: "series list \<Rightarrow> real \<Rightarrow> real \<Rightarrow> real \<Rightarrow> simulator" where
  "stub_sim rows a b c =
     \<lparr>df = rows,
      feats_A = [''dist_to_front_m'', ''momentum_7d''], predict_A = (\<lambda>_. a),
      feats_B = [''dist_to_front_m'', ''delta_dist_daily''], predict_B = (\<lambda>_. b),
      feats_C = [''encirclement_score'', ''dist_to_front_m'', ''momentum_30d''],
      predict_proba_C = (\<lambda>_. c)\<rparr>"

text \<open>
  Three models in cascade: the front advances 30 m a day, the encirclement grows as
  the distance shrinks, and the capture probability is the encirclement score.
\<close>

definition cascade_sim :: "series list \<Rightarrow> simulator" where
  "cascade_sim rows =
     \<lparr>df = rows,
      feats_A = [''momentum_7d''], predict_A = (\<lambda>_. 30),
      feats_B = [''dist_to_front_m''],
      predict_B = (\<lambda>xs. case xs of [d] \<Rightarrow> 1 - d / 100 | _ \<Rightarrow> 0),
      feats_C = [''encirclement_score''],
      predict_proba_C = (\<lambda>xs. case xs of [e] \<Rightarrow> e | _ \<Rightarrow> 0)\<rparr>"

text \<open>
  A front model that looks at the distance: 10 m at 100 m or more, 200 m between 90 m
  and 100 m, nothing at 90 m or less.
\<close>

definition braking_sim :: "series list \<Rightarrow> simulator" where
  "braking_sim rows =
     \<lparr>df = rows,
      feats_A = [''dist_to_front_m''],
      predict_A = (\<lambda>xs. case xs of [d] \<Rightarrow> if d \<le> 90 then 0 else if d < 100 then 200 else 10
                          | _ \<Rightarrow> 0),
      feats_B = [''dist_to_front_m''], predict_B = (\<lambda>_. 0.5),
      feats_C = [''encirclement_score''], predict_proba_C = (\<lambda>_. 0.2)\<rparr>"

section \<open>Properties\<close>

subsection \<open>Auxiliary facts\<close>

lemmas run_defs =
  run_simulation_def get_city_state_def stub_sim_def cascade_sim_def braking_sim_def
  city_row_def undated_row_def
  modifier_of_def modifiers_def date_of_def dated_def sort_values_date_def
  missing_labels_def unique_labels_def day_step_def model_input_def
  select_labels_def get_num_def clip_def snapshot_of_def py_round_def
  round_half_even_def Let_def upto_rec1

lemma get_num_Inr: "get_num s l = Inr x \<longleftrightarrow> s l = Some (Num x)"
  by (simp add: get_num_def split: option.splits cell.splits)

text \<open>What a successful pass of the loop body has read, computed and written.\<close>

lemma day_step_Inr:
  assumes "day_step sim m s = Inr r"
  obtains input_A cur m7 m30 input_B input_C where
    "model_input s (feats_A sim) = Inr input_A"
    "s ''dist_to_front_m'' = Some (Num cur)"
    "s ''momentum_7d'' = Some (Num m7)"
    "s ''momentum_30d'' = Some (Num m30)"
    "adjusted_delta r = predict_A sim input_A * m"
    "new_dist r = max 0 (cur - adjusted_delta r)"
    "model_input (s(''delta_dist_daily'' \<mapsto> Num (adjusted_delta r),
                    ''momentum_7d'' \<mapsto> Num (m7 * 0.9 + adjusted_delta r * 0.1),
                    ''momentum_30d'' \<mapsto> Num (m30 * 0.95 + adjusted_delta r * 0.05),
                    ''dist_to_front_m'' \<mapsto> Num (new_dist r))) (feats_B sim) = Inr input_B"
    "pred_encirclement r = clip (predict_B sim input_B) 0 1"
    "model_input (s(''delta_dist_daily'' \<mapsto> Num (adjusted_delta r),
                    ''momentum_7d'' \<mapsto> Num (m7 * 0.9 + adjusted_delta r * 0.1),
                    ''momentum_30d'' \<mapsto> Num (m30 * 0.95 + adjusted_delta r * 0.05),
                    ''dist_to_front_m'' \<mapsto> Num (new_dist r),
                    ''encirclement_score'' \<mapsto> Num (pred_encirclement r))) (feats_C sim)
       = Inr input_C"
    "prob r = predict_proba_C sim input_C"
    "vec r = s(''delta_dist_daily'' \<mapsto> Num (adjusted_delta r),
               ''momentum_7d'' \<mapsto> Num (m7 * 0.9 + adjusted_delta r * 0.1),
               ''momentum_30d'' \<mapsto> Num (m30 * 0.95 + adjusted_delta r * 0.05),
               ''dist_to_front_m'' \<mapsto> Num (new_dist r),
               ''encirclement_score'' \<mapsto> Num (pred_encirclement r))"
  using assms
  unfolding day_step_def Let_def
  by (auto simp: get_num_Inr split: sum.splits)

text \<open>Rounding keeps the order and fixes the integers.\<close>

lemma round_half_even_of_int: "round_half_even (of_int k) = k"
  by (simp add: round_half_even_def)

lemma round_half_even_bounds:
  "\<lfloor>x\<rfloor> \<le> round_half_even x" "round_half_even x \<le> \<lfloor>x\<rfloor> + 1"
  by (simp_all add: round_half_even_def Let_def)

lemma round_half_even_mono:
  assumes "x \<le> y"
  shows "round_half_even x \<le> round_half_even y"
proof (cases "\<lfloor>x\<rfloor> = \<lfloor>y\<rfloor>")
  case True
  with assms show ?thesis
    by (auto simp: round_half_even_def Let_def)
next
  case False
  with assms have "\<lfloor>x\<rfloor> + 1 \<le> \<lfloor>y\<rfloor>"
    using floor_mono [of x y] by linarith
  with round_half_even_bounds [of x] round_half_even_bounds [of y] show ?thesis
    by linarith
qed

lemma py_round_mono: "x \<le> y \<Longrightarrow> py_round x n \<le> py_round y n"
  by (simp add: py_round_def divide_right_mono round_half_even_mono)

lemma py_round_of_int: "py_round (of_int k) n = of_int k"
proof -
  have "(of_int k :: real) * 10 ^ n = of_int (k * 10 ^ n)" by simp
  then have "round_half_even (of_int k * 10 ^ n) = k * 10 ^ n"
    using round_half_even_of_int by metis
  then show ?thesis by (simp add: py_round_def)
qed

lemma py_round_unit: "0 \<le> x \<Longrightarrow> x \<le> 1 \<Longrightarrow> 0 \<le> py_round x n \<and> py_round x n \<le> 1"
  using py_round_mono [of 0 x n] py_round_mono [of x 1 n]
    py_round_of_int [of 0 n] py_round_of_int [of 1 n] by simp

lemma clip_unit: "0 \<le> clip x 0 1 \<and> clip x 0 1 \<le> 1"
  by (simp add: clip_def)

subsection \<open>The new distance\<close>

text \<open>
  C2 (as amended). On every simulated day the new distance is
  \<open>max 0 (current distance - predicted delta * modifier)\<close>, it is what the loop writes
  into \<^verbatim>\<open>dist_to_front_m\<close>, and it is never negative. When the predicted delta is not
  negative, the modifier is positive and the current distance is not negative, the new
  distance is at most the current one. When the current distance is 0 and the adjusted
  delta is not negative, the new distance is 0. (A negative delta moves a city at
  distance 0 away from the front, and a negative current distance is raised to 0.)
\<close>

theorem new_distance_clamped:
  assumes "day_step sim modifier s = Inr r"
  shows "\<exists>cur input_A.
           s ''dist_to_front_m'' = Some (Num cur) \<and>
           model_input s (feats_A sim) = Inr input_A \<and>
           new_dist r = max 0 (cur - predict_A sim input_A * modifier) \<and>
           vec r ''dist_to_front_m'' = Some (Num (new_dist r)) \<and>
           0 \<le> new_dist r \<and>
           (0 \<le> predict_A sim input_A \<and> 0 < modifier \<and> 0 \<le> cur \<longrightarrow> new_dist r \<le> cur) \<and>
           (cur = 0 \<and> 0 \<le> predict_A sim input_A * modifier \<longrightarrow> new_dist r = 0)"
proof -
  from assms obtain input_A cur where
    a: "model_input s (feats_A sim) = Inr input_A"
    and c: "s ''dist_to_front_m'' = Some (Num cur)"
    and adj: "adjusted_delta r = predict_A sim input_A * modifier"
    and nd: "new_dist r = max 0 (cur - adjusted_delta r)"
    and v: "vec r ''dist_to_front_m'' = Some (Num (new_dist r))"
    by (auto elim!: day_step_Inr)
  have mono: "0 \<le> predict_A sim input_A \<and> 0 < modifier \<and> 0 \<le> cur \<longrightarrow> new_dist r \<le> cur"
  proof
    assume h: "0 \<le> predict_A sim input_A \<and> 0 < modifier \<and> 0 \<le> cur"
    then have "0 \<le> predict_A sim input_A * modifier" by simp
    with h show "new_dist r \<le> cur" by (simp add: nd adj)
  qed
  have "new_dist r = max 0 (cur - predict_A sim input_A * modifier)"
    by (simp add: nd adj)
  moreover have "0 \<le> new_dist r" by (simp add: nd)
  moreover have "cur = 0 \<and> 0 \<le> predict_A sim input_A * modifier \<longrightarrow> new_dist r = 0"
    by (auto simp: nd adj)
  ultimately show ?thesis using a c v mono by blast
qed

text \<open>
  The aggressive scenario with the front advancing 10 m: a city 100 m from the front
  ends the day at 85 m, a city at 0 m stays at 0 m.
\<close>

theorem new_distance_clamped_witness:
  "day_step (stub_sim [] 10 0.5 0.2) 1.5 (city_row ''X'' 1 100 0)
     = Inr (projr (day_step (stub_sim [] 10 0.5 0.2) 1.5 (city_row ''X'' 1 100 0))) \<and>
   new_dist (projr (day_step (stub_sim [] 10 0.5 0.2) 1.5 (city_row ''X'' 1 100 0))) = 85 \<and>
   85 \<le> (100::real) \<and>
   day_step (stub_sim [] 10 0.5 0.2) 1.5 (city_row ''X'' 1 0 0)
     = Inr (projr (day_step (stub_sim [] 10 0.5 0.2) 1.5 (city_row ''X'' 1 0 0))) \<and>
   new_dist (projr (day_step (stub_sim [] 10 0.5 0.2) 1.5 (city_row ''X'' 1 0 0))) = 0"
proof -
  have h: "day_step (stub_sim [] 10 0.5 0.2) 1.5 (city_row ''X'' 1 100 0)
     = Inr (projr (day_step (stub_sim [] 10 0.5 0.2) 1.5 (city_row ''X'' 1 100 0)))"
    by (simp add: run_defs)
  have i: "model_input (city_row ''X'' 1 100 0) (feats_A (stub_sim [] 10 0.5 0.2)) = Inr [100, 0]"
    by (simp add: run_defs)
  from new_distance_clamped [OF h] i h
  have 1: "new_dist (projr (day_step (stub_sim [] 10 0.5 0.2) 1.5 (city_row ''X'' 1 100 0))) = 85"
    by (auto simp: stub_sim_def city_row_def)
  have h0: "day_step (stub_sim [] 10 0.5 0.2) 1.5 (city_row ''X'' 1 0 0)
     = Inr (projr (day_step (stub_sim [] 10 0.5 0.2) 1.5 (city_row ''X'' 1 0 0)))"
    by (simp add: run_defs)
  have i0: "model_input (city_row ''X'' 1 0 0) (feats_A (stub_sim [] 10 0.5 0.2)) = Inr [0, 0]"
    by (simp add: run_defs)
  from new_distance_clamped [OF h0] i0 h0
  have 2: "new_dist (projr (day_step (stub_sim [] 10 0.5 0.2) 1.5 (city_row ''X'' 1 0 0))) = 0"
    by (auto simp: stub_sim_def city_row_def)
  from h 1 h0 2 show ?thesis by (intro conjI) simp_all
qed

text \<open>
  The claim as stated fails. A city at distance 0 with a predicted delta of -5 m (the
  front recedes) ends the day at 5 m, not at 0; and a row with the distance -3 m ends
  the day at 0 m, above the current distance, with a predicted delta of 0.
\<close>

theorem zero_distance_not_absorbing:
  "get_num (city_row ''X'' 1 0 0) ''dist_to_front_m'' = Inr 0 \<and>
   map_sum id new_dist (day_step (stub_sim [] (- 5) 0.5 0.2) 1 (city_row ''X'' 1 0 0)) = Inr 5 \<and>
   get_num (city_row ''X'' 1 (- 3) 0) ''dist_to_front_m'' = Inr (- 3) \<and>
   map_sum id new_dist (day_step (stub_sim [] 0 0.5 0.2) 1 (city_row ''X'' 1 (- 3) 0)) = Inr 0"
  by (simp add: run_defs)

subsection \<open>Facts about the loop\<close>

text \<open>Every snapshot the loop appends is the snapshot of a successful pass of the body.\<close>

lemma sim_loop_snapshots:
  assumes "sim_loop sim m ds s h = Inr (s', h')"
    and "\<And>d s r. day_step sim m s = Inr r \<Longrightarrow> P (snapshot_of d r)"
  shows "\<exists>h''. h' = h @ h'' \<and> (\<forall>x\<in>set h''. P x)"
  using assms(1)
proof (induction ds arbitrary: s h)
  case Nil
  then show ?case by simp
next
  case (Cons d ds)
  from Cons.prems obtain r where r: "day_step sim m s = Inr r"
    by (auto split: sum.splits)
  show ?case
  proof (cases "0.5 < prob r")
    case True
    with Cons.prems r have "h' = h @ [snapshot_of d r]" by (simp add: Let_def)
    with assms(2) [OF r] show ?thesis by simp
  next
    case False
    with Cons.prems r have "sim_loop sim m ds (vec r) (h @ [snapshot_of d r]) = Inr (s', h')"
      by (simp add: Let_def)
    from Cons.IH [OF this] obtain h'' where
      "h' = (h @ [snapshot_of d r]) @ h''" "\<forall>x\<in>set h''. P x" by blast
    with assms(2) [OF r, of d] show ?thesis by auto
  qed
qed

lemma run_simulation_Some:
  assumes "run_simulation sim city days scenario = Inr (Some h)"
  obtains s0 s' where "get_city_state sim city = Inr s0"
    "sim_loop sim (modifier_of scenario) [1..days] s0 [] = Inr (s', h)"
  using assms unfolding run_simulation_def Let_def
  by (auto split: sum.splits option.splits if_splits)

subsection \<open>The fields the loop writes\<close>

lemma day_step_frame:
  assumes "day_step sim m s = Inr r"
    and "l \<notin> {''delta_dist_daily'', ''momentum_7d'', ''momentum_30d'', ''dist_to_front_m'',
               ''encirclement_score''}"
  shows "vec r l = s l"
  using assms(1)
proof (rule day_step_Inr)
  fix m7 m30
  assume "vec r = s(''delta_dist_daily'' \<mapsto> Num (adjusted_delta r),
               ''momentum_7d'' \<mapsto> Num (m7 * 0.9 + adjusted_delta r * 0.1),
               ''momentum_30d'' \<mapsto> Num (m30 * 0.95 + adjusted_delta r * 0.05),
               ''dist_to_front_m'' \<mapsto> Num (new_dist r),
               ''encirclement_score'' \<mapsto> Num (pred_encirclement r))"
  with assms(2) show ?thesis by simp
qed

lemma sim_loop_frame:
  assumes "sim_loop sim m ds s h = Inr (s', h')"
    and "l \<notin> {''delta_dist_daily'', ''momentum_7d'', ''momentum_30d'', ''dist_to_front_m'',
               ''encirclement_score''}"
  shows "s' l = s l"
  using assms(1)
proof (induction ds arbitrary: s h)
  case Nil
  then show ?case by simp
next
  case (Cons d ds)
  from Cons.prems obtain r where r: "day_step sim m s = Inr r"
    by (auto split: sum.splits)
  have f: "vec r l = s l" using day_step_frame [OF r assms(2)] .
  show ?case
  proof (cases "0.5 < prob r")
    case True
    with Cons.prems r have "s' = vec r" by (simp add: Let_def)
    with f show ?thesis by simp
  next
    case False
    with Cons.prems r have "sim_loop sim m ds (vec r) (h @ [snapshot_of d r]) = Inr (s', h')"
      by (simp add: Let_def)
    from Cons.IH [OF this] f show ?thesis by simp
  qed
qed

text \<open>
  C6. A pass of the loop body, and so the whole loop, changes no label of the working
  vector other than \<^verbatim>\<open>delta_dist_daily\<close>, \<^verbatim>\<open>momentum_7d\<close>, \<^verbatim>\<open>momentum_30d\<close>,
  \<^verbatim>\<open>dist_to_front_m\<close> and \<^verbatim>\<open>encirclement_score\<close>: every other label keeps the cell
  (or the absence) it has in the anchor. In particular \<^verbatim>\<open>is_captured\<close> and
  \<^verbatim>\<open>pct_occupied\<close> of the state the loop ends with are those of the anchor, also when
  the loop ends on a capture.
\<close>

theorem loop_frame:
  "(day_step sim m s = Inr r \<longrightarrow>
      (\<forall>l. l \<notin> {''delta_dist_daily'', ''momentum_7d'', ''momentum_30d'', ''dist_to_front_m'',
                  ''encirclement_score''} \<longrightarrow> vec r l = s l)) \<and>
   (sim_loop sim m ds s h = Inr (s', h') \<longrightarrow>
      (\<forall>l. l \<notin> {''delta_dist_daily'', ''momentum_7d'', ''momentum_30d'', ''dist_to_front_m'',
                  ''encirclement_score''} \<longrightarrow> s' l = s l) \<and>
      s' ''is_captured'' = s ''is_captured'' \<and> s' ''pct_occupied'' = s ''pct_occupied'')"
proof (intro conjI impI allI)
  fix l
  assume "day_step sim m s = Inr r"
    and "l \<notin> {''delta_dist_daily'', ''momentum_7d'', ''momentum_30d'', ''dist_to_front_m'',
               ''encirclement_score''}"
  then show "vec r l = s l" by (rule day_step_frame)
next
  fix l
  assume "sim_loop sim m ds s h = Inr (s', h')"
    and "l \<notin> {''delta_dist_daily'', ''momentum_7d'', ''momentum_30d'', ''dist_to_front_m'',
               ''encirclement_score''}"
  then show "s' l = s l" by (rule sim_loop_frame)
next
  assume "sim_loop sim m ds s h = Inr (s', h')"
  then show "s' ''is_captured'' = s ''is_captured''" by (rule sim_loop_frame) simp
next
  assume "sim_loop sim m ds s h = Inr (s', h')"
  then show "s' ''pct_occupied'' = s ''pct_occupied''" by (rule sim_loop_frame) simp
qed


text \<open>
  One pass of the body leaves \<^verbatim>\<open>pct_occupied\<close> as it is. A run that ends on day 2 with
  status OCCUPIED: \<^verbatim>\<open>is_captured\<close> is still 0 in the final state, and the name is the
  anchor's.
\<close>

theorem loop_frame_witness:
  "day_step (cascade_sim []) 1 (city_row ''X'' 7 100 0)
     = Inr (projr (day_step (cascade_sim []) 1 (city_row ''X'' 7 100 0))) \<and>
   vec (projr (day_step (cascade_sim []) 1 (city_row ''X'' 7 100 0))) ''pct_occupied''
     = Some (Num 0) \<and>
   sim_loop (cascade_sim []) 1 [1..5] (city_row ''X'' 7 100 0) []
     = Inr (fst (projr (sim_loop (cascade_sim []) 1 [1..5] (city_row ''X'' 7 100 0) [])),
            snd (projr (sim_loop (cascade_sim []) 1 [1..5] (city_row ''X'' 7 100 0) []))) \<and>
   map status (snd (projr (sim_loop (cascade_sim []) 1 [1..5] (city_row ''X'' 7 100 0) [])))
     = [FREE, OCCUPIED] \<and>
   fst (projr (sim_loop (cascade_sim []) 1 [1..5] (city_row ''X'' 7 100 0) [])) ''is_captured''
     = Some (Num 0) \<and>
   fst (projr (sim_loop (cascade_sim []) 1 [1..5] (city_row ''X'' 7 100 0) [])) ''name''
     = Some (Text ''X'')"
proof -
  have hd: "day_step (cascade_sim []) 1 (city_row ''X'' 7 100 0)
     = Inr (projr (day_step (cascade_sim []) 1 (city_row ''X'' 7 100 0)))"
    by (simp add: run_defs)
  have p: "''pct_occupied'' \<notin> {''delta_dist_daily'', ''momentum_7d'', ''momentum_30d'',
                  ''dist_to_front_m'', ''encirclement_score''}" by simp
  have o: "vec (projr (day_step (cascade_sim []) 1 (city_row ''X'' 7 100 0))) ''pct_occupied''
             = city_row ''X'' 7 100 0 ''pct_occupied''"
    using loop_frame [THEN conjunct1, THEN mp, OF hd, THEN spec, THEN mp, OF p] .
  have h: "sim_loop (cascade_sim []) 1 [1..5] (city_row ''X'' 7 100 0) []
     = Inr (fst (projr (sim_loop (cascade_sim []) 1 [1..5] (city_row ''X'' 7 100 0) [])),
            snd (projr (sim_loop (cascade_sim []) 1 [1..5] (city_row ''X'' 7 100 0) [])))"
    by (simp add: run_defs)
  have st: "map status (snd (projr (sim_loop (cascade_sim []) 1 [1..5] (city_row ''X'' 7 100 0) [])))
     = [FREE, OCCUPIED]"
    by (simp add: run_defs)
  have n: "''name'' \<notin> {''delta_dist_daily'', ''momentum_7d'', ''momentum_30d'',
                  ''dist_to_front_m'', ''encirclement_score''}" by simp
  note f = loop_frame [THEN conjunct2, THEN mp, OF h]
  have c: "fst (projr (sim_loop (cascade_sim []) 1 [1..5] (city_row ''X'' 7 100 0) []))
              ''is_captured'' = city_row ''X'' 7 100 0 ''is_captured''"
    using f by (rule conjunct2 [THEN conjunct1])
  have m: "fst (projr (sim_loop (cascade_sim []) 1 [1..5] (city_row ''X'' 7 100 0) []))
              ''name'' = city_row ''X'' 7 100 0 ''name''"
    using f [THEN conjunct1, THEN spec, THEN mp, OF n] .
  have "city_row ''X'' 7 100 0 ''is_captured'' = Some (Num 0)"
    and "city_row ''X'' 7 100 0 ''name'' = Some (Text ''X'')"
    and "city_row ''X'' 7 100 0 ''pct_occupied'' = Some (Num 0)"
    by (simp_all add: city_row_def)
  with c m o hd h st show ?thesis by simp
qed

subsection \<open>Early termination and horizon completion\<close>

lemma sim_loop_capture:
  assumes "n < length ds"
    and "\<forall>j<n. \<exists>p. capture_prob sim m s j = Inr p \<and> p \<le> 0.5"
    and "capture_prob sim m s n = Inr p" and "0.5 < p"
  shows "\<exists>s' h'. sim_loop sim m ds s h = Inr (s', h @ h') \<and>
           map day h' = take (Suc n) ds \<and> map status h' = replicate n FREE @ [OCCUPIED]"
  using assms
proof (induction ds arbitrary: n s h)
  case Nil
  then show ?case by simp
next
  case (Cons d ds)
  show ?case
  proof (cases n)
    case 0
    with Cons.prems obtain r where r: "day_step sim m s = Inr r" "prob r = p"
      by (auto split: sum.splits)
    with Cons.prems have "sim_loop sim m (d # ds) s h = Inr (vec r, h @ [snapshot_of d r])"
      by (simp add: Let_def)
    moreover have "map day [snapshot_of d r] = take (Suc n) (d # ds)"
      using 0 by (simp add: snapshot_of_def)
    moreover have "map status [snapshot_of d r] = replicate n FREE @ [OCCUPIED]"
      using 0 r Cons.prems by (simp add: snapshot_of_def)
    ultimately show ?thesis by blast
  next
    case (Suc k)
    with Cons.prems have "\<exists>p. capture_prob sim m s 0 = Inr p \<and> p \<le> 0.5" by blast
    then obtain r where r: "day_step sim m s = Inr r" "prob r \<le> 0.5"
      by (auto split: sum.splits)
    have step: "sim_loop sim m (d # ds) s h = sim_loop sim m ds (vec r) (h @ [snapshot_of d r])"
      using r by (simp add: Let_def)
    have k: "k < length ds" using Cons.prems Suc by simp
    have before: "\<forall>j<k. \<exists>p. capture_prob sim m (vec r) j = Inr p \<and> p \<le> 0.5"
    proof (intro allI impI)
      fix j assume "j < k"
      then have "Suc j < n" using Suc by simp
      with Cons.prems have "\<exists>p. capture_prob sim m s (Suc j) = Inr p \<and> p \<le> 0.5" by blast
      then show "\<exists>p. capture_prob sim m (vec r) j = Inr p \<and> p \<le> 0.5" using r by simp
    qed
    have at: "capture_prob sim m (vec r) k = Inr p" using Cons.prems Suc r by simp
    from Cons.IH [OF k before at \<open>0.5 < p\<close>, of "h @ [snapshot_of d r]"]
    obtain s' h' where
      l: "sim_loop sim m ds (vec r) (h @ [snapshot_of d r]) = Inr (s', (h @ [snapshot_of d r]) @ h')"
      and d: "map day h' = take (Suc k) ds"
      and st: "map status h' = replicate k FREE @ [OCCUPIED]" by blast
    have "sim_loop sim m (d # ds) s h = Inr (s', h @ (snapshot_of d r # h'))"
      using step l by simp
    moreover have "map day (snapshot_of d r # h') = take (Suc n) (d # ds)"
      using d Suc by (simp add: snapshot_of_def)
    moreover have "map status (snapshot_of d r # h') = replicate n FREE @ [OCCUPIED]"
      using st Suc r by (simp add: snapshot_of_def)
    ultimately show ?thesis by blast
  qed
qed

lemma sim_loop_horizon:
  assumes "\<forall>j<length ds. \<exists>p. capture_prob sim m s j = Inr p \<and> p \<le> 0.5"
  shows "\<exists>s' h'. sim_loop sim m ds s h = Inr (s', h @ h') \<and>
           map day h' = ds \<and> map status h' = replicate (length ds) FREE"
  using assms
proof (induction ds arbitrary: s h)
  case Nil
  then show ?case by simp
next
  case (Cons d ds)
  then have "\<exists>p. capture_prob sim m s 0 = Inr p \<and> p \<le> 0.5" by auto
  then obtain r where r: "day_step sim m s = Inr r" "prob r \<le> 0.5"
    by (auto split: sum.splits)
  have step: "sim_loop sim m (d # ds) s h = sim_loop sim m ds (vec r) (h @ [snapshot_of d r])"
    using r by (simp add: Let_def)
  have "\<forall>j<length ds. \<exists>p. capture_prob sim m (vec r) j = Inr p \<and> p \<le> 0.5"
  proof (intro allI impI)
    fix j assume "j < length ds"
    then have "Suc j < length (d # ds)" by simp
    with Cons.prems have "\<exists>p. capture_prob sim m s (Suc j) = Inr p \<and> p \<le> 0.5" by blast
    then show "\<exists>p. capture_prob sim m (vec r) j = Inr p \<and> p \<le> 0.5" using r by simp
  qed
  from Cons.IH [OF this, of "h @ [snapshot_of d r]"]
  obtain s' h' where
    l: "sim_loop sim m ds (vec r) (h @ [snapshot_of d r]) = Inr (s', (h @ [snapshot_of d r]) @ h')"
    and d: "map day h' = ds"
    and st: "map status h' = replicate (length ds) FREE" by blast
  have 1: "sim_loop sim m (d # ds) s h = Inr (s', h @ (snapshot_of d r # h'))"
    using step l by simp
  have 2: "map day (snapshot_of d r # h') = d # ds"
    using d by (simp add: snapshot_of_def)
  have 3: "map status (snapshot_of d r # h') = replicate (length (d # ds)) FREE"
    using st r by (simp add: snapshot_of_def)
  show ?case
    by (rule exI [of _ s'], rule exI [of _ "snapshot_of d r # h'"]) (simp only: 1 2 3)
qed

lemma take_upto: "int n \<le> j - i + 1 \<Longrightarrow> take n [i..j] = [i..i + int n - 1]"
proof (induction n arbitrary: i)
  case 0
  then show ?case by simp
next
  case (Suc n)
  then have le: "i \<le> j" by simp
  have "take (Suc n) [i..j] = i # take n [i + 1..j]"
    using le by (simp add: upto_rec1)
  also have "take n [i + 1..j] = [i + 1..i + 1 + int n - 1]"
    using Suc.prems by (intro Suc.IH) simp
  also have "i # [i + 1..i + 1 + int n - 1] = [i..i + int (Suc n) - 1]"
    by (simp add: upto_rec1 [of i "i + int n"] add.commute)
  finally show ?case .
qed

lemma run_simulation_loop:
  assumes "get_city_state sim city = Inr s0" "s0 ''is_captured'' = Some c" "c \<noteq> Num 1"
    and "sim_loop sim (modifier_of scenario) [1..days] s0 [] = Inr (s', h)"
  shows "run_simulation sim city days scenario = Inr (Some h)"
  using assms by (simp add: run_simulation_def)

text \<open>
  C3. A run on an anchor that is not captured, with a horizon of at least one day.
  Days are counted from 1, so the capture probability of day \<open>j\<close> is
  \<open>capture_prob sim modifier s0 (j - 1)\<close>. If the capture probability is at most 0.5 on
  the days before day \<open>k\<close> and exceeds 0.5 on day \<open>k\<close>, with \<open>k\<close> within the horizon, the
  run returns exactly \<open>k\<close> snapshots, those of the days 1 to \<open>k\<close> and of no later day,
  the last with status OCCUPIED and the ones before it FREE. If the capture probability
  is at most 0.5 on every day of the horizon, the run returns exactly one snapshot for
  each day of the horizon, all FREE.
\<close>

theorem early_termination_and_horizon:
  assumes "get_city_state sim city = Inr s0" and "s0 ''is_captured'' = Some c"
    and "c \<noteq> Num 1" and "1 \<le> days"
  shows "(1 \<le> k \<and> int k \<le> days \<and>
          (\<forall>j. 1 \<le> j \<and> j < k \<longrightarrow>
             (\<exists>p. capture_prob sim (modifier_of scenario) s0 (j - 1) = Inr p \<and> p \<le> 0.5)) \<and>
          (\<exists>p. capture_prob sim (modifier_of scenario) s0 (k - 1) = Inr p \<and> 0.5 < p)
          \<longrightarrow> (\<exists>h. run_simulation sim city days scenario = Inr (Some h) \<and>
                   length h = k \<and> map day h = [1..int k] \<and>
                   status (last h) = OCCUPIED \<and> (\<forall>i<k - 1. status (h ! i) = FREE))) \<and>
         ((\<forall>j. 1 \<le> j \<and> int j \<le> days \<longrightarrow>
             (\<exists>p. capture_prob sim (modifier_of scenario) s0 (j - 1) = Inr p \<and> p \<le> 0.5))
          \<longrightarrow> (\<exists>h. run_simulation sim city days scenario = Inr (Some h) \<and>
                   int (length h) = days \<and> map day h = [1..days] \<and>
                   (\<forall>x\<in>set h. status x = FREE)))"
proof (intro conjI impI)
  assume a: "1 \<le> k \<and> int k \<le> days \<and>
          (\<forall>j. 1 \<le> j \<and> j < k \<longrightarrow>
             (\<exists>p. capture_prob sim (modifier_of scenario) s0 (j - 1) = Inr p \<and> p \<le> 0.5)) \<and>
          (\<exists>p. capture_prob sim (modifier_of scenario) s0 (k - 1) = Inr p \<and> 0.5 < p)"
  then obtain p where p: "capture_prob sim (modifier_of scenario) s0 (k - 1) = Inr p" "0.5 < p"
    by blast
  from a have k: "1 \<le> k" "int k \<le> days" by simp_all
  have len: "k - 1 < length [1..days]" using k by simp
  have before: "\<forall>j<k - 1. \<exists>p. capture_prob sim (modifier_of scenario) s0 j = Inr p \<and> p \<le> 0.5"
  proof (intro allI impI)
    fix j assume "j < k - 1"
    then have "1 \<le> Suc j \<and> Suc j < k" by simp
    with a have "\<exists>p. capture_prob sim (modifier_of scenario) s0 (Suc j - 1) = Inr p \<and> p \<le> 0.5"
      by blast
    then show "\<exists>p. capture_prob sim (modifier_of scenario) s0 j = Inr p \<and> p \<le> 0.5" by simp
  qed
  from sim_loop_capture [OF len before p, of "[]"] obtain s' h where
    l: "sim_loop sim (modifier_of scenario) [1..days] s0 [] = Inr (s', h)"
    and d: "map day h = take (Suc (k - 1)) [1..days]"
    and st: "map status h = replicate (k - 1) FREE @ [OCCUPIED]" by auto
  have run: "run_simulation sim city days scenario = Inr (Some h)"
    using assms(1-3) l by (rule run_simulation_loop)
  have dk: "map day h = [1..int k]"
    using d k take_upto [of k days 1] by simp
  have lh: "length h = k"
    using arg_cong [OF st, of length] k by simp
  have "h \<noteq> []" using lh k by auto
  then have "status (last h) = last (map status h)" by (simp add: last_map)
  then have occ: "status (last h) = OCCUPIED" using st by simp
  have free: "\<forall>i<k - 1. status (h ! i) = FREE"
  proof (intro allI impI)
    fix i assume i: "i < k - 1"
    then have "status (h ! i) = map status h ! i" using lh by simp
    also have "\<dots> = FREE" using st i by (simp add: nth_append)
    finally show "status (h ! i) = FREE" .
  qed
  from run lh dk occ free
  show "\<exists>h. run_simulation sim city days scenario = Inr (Some h) \<and>
                   length h = k \<and> map day h = [1..int k] \<and>
                   status (last h) = OCCUPIED \<and> (\<forall>i<k - 1. status (h ! i) = FREE)" by blast
next
  assume a: "\<forall>j. 1 \<le> j \<and> int j \<le> days \<longrightarrow>
             (\<exists>p. capture_prob sim (modifier_of scenario) s0 (j - 1) = Inr p \<and> p \<le> 0.5)"
  have "\<forall>j<length [1..days]. \<exists>p. capture_prob sim (modifier_of scenario) s0 j = Inr p \<and> p \<le> 0.5"
  proof (intro allI impI)
    fix j assume "j < length [1..days]"
    then have "1 \<le> Suc j \<and> int (Suc j) \<le> days" by simp
    with a have "\<exists>p. capture_prob sim (modifier_of scenario) s0 (Suc j - 1) = Inr p \<and> p \<le> 0.5"
      by blast
    then show "\<exists>p. capture_prob sim (modifier_of scenario) s0 j = Inr p \<and> p \<le> 0.5" by simp
  qed
  from sim_loop_horizon [OF this, of "[]"] obtain s' h where
    l: "sim_loop sim (modifier_of scenario) [1..days] s0 [] = Inr (s', h)"
    and d: "map day h = [1..days]"
    and st: "map status h = replicate (length [1..days]) FREE" by auto
  have run: "run_simulation sim city days scenario = Inr (Some h)"
    using assms(1-3) l by (rule run_simulation_loop)
  have lh: "int (length h) = days"
    using arg_cong [OF d, of length] assms(4) by simp
  have "set (map status h) \<subseteq> {FREE}" using st by (simp add: set_replicate_conv_if)
  then have free: "\<forall>x\<in>set h. status x = FREE" by auto
  from run lh d free
  show "\<exists>h. run_simulation sim city days scenario = Inr (Some h) \<and>
                   int (length h) = days \<and> map day h = [1..days] \<and>
                   (\<forall>x\<in>set h. status x = FREE)" by blast
qed


text \<open>
  The cascade reaches 0.6 on day 2 of a horizon of 5 days; the constant stubs stay at
  0.2 over a horizon of 2 days.
\<close>

theorem early_termination_and_horizon_witness:
  "get_city_state (cascade_sim [city_row ''X'' 7 100 0]) ''X'' = Inr (city_row ''X'' 7 100 0) \<and>
   city_row ''X'' 7 100 0 ''is_captured'' = Some (Num 0) \<and>
   capture_prob (cascade_sim [city_row ''X'' 7 100 0]) (modifier_of ''inertial'')
     (city_row ''X'' 7 100 0) 0 = Inr 0.3 \<and>
   capture_prob (cascade_sim [city_row ''X'' 7 100 0]) (modifier_of ''inertial'')
     (city_row ''X'' 7 100 0) 1 = Inr 0.6 \<and>
   (\<exists>h. run_simulation (cascade_sim [city_row ''X'' 7 100 0]) ''X'' 5 ''inertial'' = Inr (Some h) \<and>
        length h = 2 \<and> map day h = [1, 2] \<and> status (last h) = OCCUPIED) \<and>
   get_city_state (stub_sim [city_row ''X'' 7 100 0] 10 0.5 0.2) ''X''
     = Inr (city_row ''X'' 7 100 0) \<and>
   capture_prob (stub_sim [city_row ''X'' 7 100 0] 10 0.5 0.2) (modifier_of ''inertial'')
     (city_row ''X'' 7 100 0) 0 = Inr 0.2 \<and>
   capture_prob (stub_sim [city_row ''X'' 7 100 0] 10 0.5 0.2) (modifier_of ''inertial'')
     (city_row ''X'' 7 100 0) 1 = Inr 0.2 \<and>
   (\<exists>h. run_simulation (stub_sim [city_row ''X'' 7 100 0] 10 0.5 0.2) ''X'' 2 ''inertial''
          = Inr (Some h) \<and>
        length h = 2 \<and> map day h = [1, 2] \<and> map status h = [FREE, FREE])"
proof -
  have c: "city_row ''X'' 7 100 0 ''is_captured'' = Some (Num 0)"
    by (simp add: city_row_def)
  have ne: "Num 0 \<noteq> Num 1" by simp
  have g1: "get_city_state (cascade_sim [city_row ''X'' 7 100 0]) ''X''
              = Inr (city_row ''X'' 7 100 0)"
    by (simp add: run_defs)
  have p0: "capture_prob (cascade_sim [city_row ''X'' 7 100 0]) (modifier_of ''inertial'')
     (city_row ''X'' 7 100 0) 0 = Inr 0.3"
    by (simp add: run_defs)
  have p1: "capture_prob (cascade_sim [city_row ''X'' 7 100 0]) (modifier_of ''inertial'')
     (city_row ''X'' 7 100 0) 1 = Inr 0.6"
    by (simp add: run_defs)
  have hyp1: "1 \<le> (2::nat) \<and> int 2 \<le> 5 \<and>
          (\<forall>j. 1 \<le> j \<and> j < 2 \<longrightarrow>
             (\<exists>p. capture_prob (cascade_sim [city_row ''X'' 7 100 0]) (modifier_of ''inertial'')
                    (city_row ''X'' 7 100 0) (j - 1) = Inr p \<and> p \<le> 0.5)) \<and>
          (\<exists>p. capture_prob (cascade_sim [city_row ''X'' 7 100 0]) (modifier_of ''inertial'')
                    (city_row ''X'' 7 100 0) (2 - 1) = Inr p \<and> 0.5 < p)"
  proof (intro conjI allI impI)
    fix j :: nat
    assume "1 \<le> j \<and> j < 2"
    then have j: "j - 1 = 0" by simp
    have "0.3 \<le> (0.5::real)" by simp
    with p0 show "\<exists>p. capture_prob (cascade_sim [city_row ''X'' 7 100 0]) (modifier_of ''inertial'')
                    (city_row ''X'' 7 100 0) (j - 1) = Inr p \<and> p \<le> 0.5"
      unfolding j by blast
  next
    have k: "(2::nat) - 1 = 1" by simp
    have "0.5 < (0.6::real)" by simp
    with p1 show "\<exists>p. capture_prob (cascade_sim [city_row ''X'' 7 100 0]) (modifier_of ''inertial'')
                    (city_row ''X'' 7 100 0) (2 - 1) = Inr p \<and> 0.5 < p"
      unfolding k by blast
  qed simp_all
  from early_termination_and_horizon [OF g1 c ne, of 5 2 "''inertial''", THEN conjunct1,
      THEN mp, OF _ hyp1]
  obtain h where h: "run_simulation (cascade_sim [city_row ''X'' 7 100 0]) ''X'' 5 ''inertial''
      = Inr (Some h)" "length h = 2" "map day h = [1..int 2]" "status (last h) = OCCUPIED"
    by auto
  have r1: "\<exists>h. run_simulation (cascade_sim [city_row ''X'' 7 100 0]) ''X'' 5 ''inertial''
        = Inr (Some h) \<and> length h = 2 \<and> map day h = [1, 2] \<and> status (last h) = OCCUPIED"
    using h by (auto simp: upto_rec1)
  have g2: "get_city_state (stub_sim [city_row ''X'' 7 100 0] 10 0.5 0.2) ''X''
     = Inr (city_row ''X'' 7 100 0)"
    by (simp add: run_defs)
  have q0: "capture_prob (stub_sim [city_row ''X'' 7 100 0] 10 0.5 0.2) (modifier_of ''inertial'')
     (city_row ''X'' 7 100 0) 0 = Inr 0.2"
    by (simp add: run_defs)
  have q1: "capture_prob (stub_sim [city_row ''X'' 7 100 0] 10 0.5 0.2) (modifier_of ''inertial'')
     (city_row ''X'' 7 100 0) 1 = Inr 0.2"
    by (simp add: run_defs)
  have hyp2: "\<forall>j. 1 \<le> j \<and> int j \<le> 2 \<longrightarrow>
             (\<exists>p. capture_prob (stub_sim [city_row ''X'' 7 100 0] 10 0.5 0.2)
                    (modifier_of ''inertial'') (city_row ''X'' 7 100 0) (j - 1) = Inr p \<and> p \<le> 0.5)"
  proof (intro allI impI)
    fix j :: nat
    assume "1 \<le> j \<and> int j \<le> 2"
    then consider "j - 1 = 0" | "j - 1 = 1" by fastforce
    then show "\<exists>p. capture_prob (stub_sim [city_row ''X'' 7 100 0] 10 0.5 0.2)
                    (modifier_of ''inertial'') (city_row ''X'' 7 100 0) (j - 1) = Inr p \<and> p \<le> 0.5"
    proof cases
      case 1
      have "0.2 \<le> (0.5::real)" by simp
      with q0 show ?thesis unfolding 1 by blast
    next
      case 2
      have "0.2 \<le> (0.5::real)" by simp
      with q1 show ?thesis unfolding 2 by blast
    qed
  qed
  from early_termination_and_horizon [OF g2 c ne, of 2 _ "''inertial''", THEN conjunct2,
      THEN mp, OF _ hyp2]
  obtain h' where h': "run_simulation (stub_sim [city_row ''X'' 7 100 0] 10 0.5 0.2) ''X'' 2
      ''inertial'' = Inr (Some h')" "int (length h') = 2" "map day h' = [1..2]"
      "\<forall>x\<in>set h'. status x = FREE"
    by auto
  have "length (map status h') = 2" using h'(2) by simp
  moreover have "\<forall>x\<in>set (map status h'). x = FREE" using h'(4) by simp
  ultimately have "map status h' = [FREE, FREE]"
    by (cases "map status h'"; cases "tl (map status h')") auto
  then have r2: "\<exists>h. run_simulation (stub_sim [city_row ''X'' 7 100 0] 10 0.5 0.2) ''X'' 2
      ''inertial'' = Inr (Some h) \<and> length h = 2 \<and> map day h = [1, 2] \<and>
      map status h = [FREE, FREE]"
    using h' by (auto simp: upto_rec1)
  from g1 c p0 p1 r1 g2 q0 q1 r2 show ?thesis by (intro conjI)
qed

subsection \<open>The already occupied city\<close>

lemma get_city_state_cong: "df sim' = df sim \<Longrightarrow> get_city_state sim' city = get_city_state sim city"
  by (simp add: get_city_state_def)

text \<open>
  C5. When \<^verbatim>\<open>is_captured\<close> of the anchor is 1, the run returns \<^verbatim>\<open>None\<close>, whatever the
  three models and their feature lists are (also ones whose features the anchor does
  not have: no model input is built and no model is called), and whatever the horizon
  and the scenario. This outcome differs from the empty history, which is what a run
  on a free city with a horizon below one day returns.
\<close>

theorem already_captured_refused:
  assumes "get_city_state sim city = Inr s0"
  shows "(s0 ''is_captured'' = Some (Num 1) \<longrightarrow>
           (\<forall>sim'. df sim' = df sim \<longrightarrow> run_simulation sim' city days scenario = Inr None)) \<and>
         (\<forall>c. s0 ''is_captured'' = Some c \<and> c \<noteq> Num 1 \<and> days < 1 \<longrightarrow>
              run_simulation sim city days scenario = Inr (Some [])) \<and>
         (Inr None :: error + snapshot list option) \<noteq> Inr (Some [])"
proof (intro conjI impI allI)
  fix sim' :: simulator
  assume "s0 ''is_captured'' = Some (Num 1)" and "df sim' = df sim"
  then have "get_city_state sim' city = Inr s0" "s0 ''is_captured'' = Some (Num 1)"
    using assms get_city_state_cong [of sim' sim city] by simp_all
  then show "run_simulation sim' city days scenario = Inr None"
    by (simp add: run_simulation_def)
next
  fix c
  assume "s0 ''is_captured'' = Some c \<and> c \<noteq> Num 1 \<and> days < 1"
  with assms show "run_simulation sim city days scenario = Inr (Some [])"
    by (simp add: run_simulation_def)
next
  show "(Inr None :: error + snapshot list option) \<noteq> Inr (Some [])" by simp
qed

text \<open>
  An occupied anchor with a front model that asks for a column the table does not have,
  and a free anchor with a horizon of 0 days.
\<close>

theorem already_captured_refused_witness:
  "get_city_state (stub_sim [city_row ''X'' 7 0 1] 10 0.5 0.9) ''X'' = Inr (city_row ''X'' 7 0 1) \<and>
   city_row ''X'' 7 0 1 ''is_captured'' = Some (Num 1) \<and>
   run_simulation (stub_sim [city_row ''X'' 7 0 1] 10 0.5 0.9\<lparr>feats_A := [''no_such_column'']\<rparr>)
     ''X'' 5 ''inertial'' = Inr None \<and>
   get_city_state (stub_sim [city_row ''X'' 7 0 0] 10 0.5 0.9) ''X'' = Inr (city_row ''X'' 7 0 0) \<and>
   run_simulation (stub_sim [city_row ''X'' 7 0 0] 10 0.5 0.9) ''X'' 0 ''inertial'' = Inr (Some [])"
proof -
  have g: "get_city_state (stub_sim [city_row ''X'' 7 0 1] 10 0.5 0.9) ''X''
             = Inr (city_row ''X'' 7 0 1)"
    by (simp add: run_defs)
  have c: "city_row ''X'' 7 0 1 ''is_captured'' = Some (Num 1)"
    by (simp add: city_row_def)
  have d: "df (stub_sim [city_row ''X'' 7 0 1] 10 0.5 0.9\<lparr>feats_A := [''no_such_column'']\<rparr>)
             = df (stub_sim [city_row ''X'' 7 0 1] 10 0.5 0.9)"
    by simp
  note r = already_captured_refused [OF g, of 5 "''inertial''", THEN conjunct1, THEN mp, OF c,
      THEN spec, THEN mp, OF d]
  have g0: "get_city_state (stub_sim [city_row ''X'' 7 0 0] 10 0.5 0.9) ''X''
             = Inr (city_row ''X'' 7 0 0)"
    by (simp add: run_defs)
  have c0: "city_row ''X'' 7 0 0 ''is_captured'' = Some (Num 0) \<and> Num 0 \<noteq> Num 1 \<and> (0::int) < 1"
    by (simp add: city_row_def)
  note z = already_captured_refused [OF g0, of 0 "''inertial''", THEN conjunct2, THEN conjunct1,
      THEN spec, THEN mp, OF c0]
  from g c r g0 z show ?thesis by (intro conjI)
qed

subsection \<open>The scenario table\<close>

text \<open>
  C8. The table gives 0.5 for \<^verbatim>\<open>conservative\<close>, 1.0 for \<^verbatim>\<open>inertial\<close> and 1.5 for
  \<^verbatim>\<open>aggressive\<close>. A label that is not in the table gets 1.0, with no error, and the
  run with it is the run with \<^verbatim>\<open>inertial\<close>: the same outcome, be it a history, the
  refusal or an error.
\<close>

theorem scenario_lookup:
  "modifier_of ''conservative'' = 0.5 \<and> modifier_of ''inertial'' = 1.0 \<and>
   modifier_of ''aggressive'' = 1.5 \<and>
   (scenario \<notin> {''conservative'', ''inertial'', ''aggressive''} \<longrightarrow>
      modifier_of scenario = 1.0 \<and>
      run_simulation sim city days scenario = run_simulation sim city days ''inertial'')"
proof -
  have i: "modifier_of ''inertial'' = 1.0"
    by (simp add: modifier_of_def modifiers_def)
  have u: "modifier_of scenario = 1.0"
    if "scenario \<notin> {''conservative'', ''inertial'', ''aggressive''}"
    using that by (simp add: modifier_of_def modifiers_def)
  have "run_simulation sim city days scenario = run_simulation sim city days ''inertial''"
    if "scenario \<notin> {''conservative'', ''inertial'', ''aggressive''}"
    unfolding run_simulation_def u [OF that] i ..
  moreover have "modifier_of ''conservative'' = 0.5" "modifier_of ''aggressive'' = 1.5"
    by (simp_all add: modifier_of_def modifiers_def)
  ultimately show ?thesis using i u by (intro conjI impI)
qed

text \<open>The label \<^verbatim>\<open>blitz\<close>.\<close>

theorem scenario_lookup_witness:
  "''blitz'' \<notin> {''conservative'', ''inertial'', ''aggressive''} \<and>
   modifier_of ''blitz'' = 1.0 \<and>
   run_simulation (cascade_sim [city_row ''X'' 7 100 0]) ''X'' 5 ''blitz''
     = run_simulation (cascade_sim [city_row ''X'' 7 100 0]) ''X'' 5 ''inertial''"
proof -
  have b: "''blitz'' \<notin> {''conservative'', ''inertial'', ''aggressive''}" by simp
  note s = scenario_lookup [of "''blitz''" "cascade_sim [city_row ''X'' 7 100 0]" "''X''" 5,
      THEN conjunct2, THEN conjunct2, THEN conjunct2, THEN mp, OF b]
  from b s show ?thesis by (intro conjI) simp_all
qed

subsection \<open>The order of the three stages\<close>

text \<open>
  C1. A pass of the loop body that succeeds has built the input of the front model from
  the state before any write. The input of the encirclement model is then built from
  that state with \<^verbatim>\<open>delta_dist_daily\<close> set to the adjusted delta, \<^verbatim>\<open>momentum_7d\<close> to
  \<open>momentum_7d * 0.9 + adjusted_delta * 0.1\<close>, \<^verbatim>\<open>momentum_30d\<close> to
  \<open>momentum_30d * 0.95 + adjusted_delta * 0.05\<close> (both from the values before the pass)
  and \<^verbatim>\<open>dist_to_front_m\<close> to the new distance. The input of the capture model is
  built from that state with \<^verbatim>\<open>encirclement_score\<close> set to the clipped output of the
  encirclement model, and this last state is the one the pass leaves.
\<close>

theorem stage_order:
  assumes "day_step sim modifier s = Inr r"
  shows "\<exists>input_A cur m7 m30 input_B input_C.
     model_input s (feats_A sim) = Inr input_A \<and>
     s ''dist_to_front_m'' = Some (Num cur) \<and>
     s ''momentum_7d'' = Some (Num m7) \<and>
     s ''momentum_30d'' = Some (Num m30) \<and>
     adjusted_delta r = predict_A sim input_A * modifier \<and>
     new_dist r = max 0 (cur - adjusted_delta r) \<and>
     model_input (s(''delta_dist_daily'' \<mapsto> Num (adjusted_delta r),
                    ''momentum_7d'' \<mapsto> Num (m7 * 0.9 + adjusted_delta r * 0.1),
                    ''momentum_30d'' \<mapsto> Num (m30 * 0.95 + adjusted_delta r * 0.05),
                    ''dist_to_front_m'' \<mapsto> Num (new_dist r))) (feats_B sim) = Inr input_B \<and>
     pred_encirclement r = clip (predict_B sim input_B) 0 1 \<and>
     model_input (s(''delta_dist_daily'' \<mapsto> Num (adjusted_delta r),
                    ''momentum_7d'' \<mapsto> Num (m7 * 0.9 + adjusted_delta r * 0.1),
                    ''momentum_30d'' \<mapsto> Num (m30 * 0.95 + adjusted_delta r * 0.05),
                    ''dist_to_front_m'' \<mapsto> Num (new_dist r),
                    ''encirclement_score'' \<mapsto> Num (pred_encirclement r))) (feats_C sim)
       = Inr input_C \<and>
     prob r = predict_proba_C sim input_C \<and>
     vec r = s(''delta_dist_daily'' \<mapsto> Num (adjusted_delta r),
               ''momentum_7d'' \<mapsto> Num (m7 * 0.9 + adjusted_delta r * 0.1),
               ''momentum_30d'' \<mapsto> Num (m30 * 0.95 + adjusted_delta r * 0.05),
               ''dist_to_front_m'' \<mapsto> Num (new_dist r),
               ''encirclement_score'' \<mapsto> Num (pred_encirclement r))"
  using assms by (rule day_step_Inr) (intro exI conjI, assumption+)

text \<open>
  In the cascade the capture probability 0.3 of the first day is the encirclement score
  written that day, which comes from the distance written that day.
\<close>

theorem stage_order_witness:
  "day_step (cascade_sim []) 1 (city_row ''X'' 7 100 0)
     = Inr (projr (day_step (cascade_sim []) 1 (city_row ''X'' 7 100 0))) \<and>
   new_dist (projr (day_step (cascade_sim []) 1 (city_row ''X'' 7 100 0))) = 70 \<and>
   pred_encirclement (projr (day_step (cascade_sim []) 1 (city_row ''X'' 7 100 0))) = 0.3 \<and>
   prob (projr (day_step (cascade_sim []) 1 (city_row ''X'' 7 100 0))) = 0.3 \<and>
   vec (projr (day_step (cascade_sim []) 1 (city_row ''X'' 7 100 0))) ''momentum_7d''
     = Some (Num 3)"
proof -
  have h: "day_step (cascade_sim []) 1 (city_row ''X'' 7 100 0)
     = Inr (projr (day_step (cascade_sim []) 1 (city_row ''X'' 7 100 0)))"
    by (simp add: run_defs)
  have v: "new_dist (projr (day_step (cascade_sim []) 1 (city_row ''X'' 7 100 0))) = 70"
    "pred_encirclement (projr (day_step (cascade_sim []) 1 (city_row ''X'' 7 100 0))) = 0.3"
    "prob (projr (day_step (cascade_sim []) 1 (city_row ''X'' 7 100 0))) = 0.3"
    "vec (projr (day_step (cascade_sim []) 1 (city_row ''X'' 7 100 0))) ''momentum_7d''
       = Some (Num 3)"
    by (simp_all add: run_defs)
  from stage_order [OF h] h v show ?thesis by (intro conjI)
qed

subsection \<open>Score bounds\<close>

lemma capture_prob_output:
  "capture_prob sim m s n = Inr p \<Longrightarrow> \<exists>xs. p = predict_proba_C sim xs"
proof (induction n arbitrary: s)
  case 0
  then obtain r where "day_step sim m s = Inr r" "prob r = p"
    by (auto split: sum.splits)
  then show ?case by (auto elim!: day_step_Inr)
next
  case (Suc n)
  from Suc.prems obtain r :: day_result where "capture_prob sim m (vec r) n = Inr p"
    by (auto split: sum.splits)
  then show ?case by (rule Suc.IH)
qed

text \<open>
  The probability recorded in the snapshot of a day is the capture probability of that
  day rounded to three places.
\<close>

lemma sim_loop_probs:
  assumes "sim_loop sim m ds s h = Inr (s', h')"
  shows "\<exists>h''. h' = h @ h'' \<and>
           (\<forall>i<length h''. \<exists>p. capture_prob sim m s i = Inr p \<and>
                                prob_capture (h'' ! i) = py_round p 3)"
  using assms
proof (induction ds arbitrary: s h)
  case Nil
  then show ?case by simp
next
  case (Cons d ds)
  from Cons.prems obtain r where r: "day_step sim m s = Inr r"
    by (auto split: sum.splits)
  have first: "capture_prob sim m s 0 = Inr (prob r)"
    "prob_capture (snapshot_of d r) = py_round (prob r) 3"
    using r by (simp_all add: snapshot_of_def)
  show ?case
  proof (cases "0.5 < prob r")
    case True
    with Cons.prems r have "h' = h @ [snapshot_of d r]" by (simp add: Let_def)
    moreover have "\<forall>i<length [snapshot_of d r]. \<exists>p. capture_prob sim m s i = Inr p \<and>
        prob_capture ([snapshot_of d r] ! i) = py_round p 3"
      using first by simp
    ultimately show ?thesis by blast
  next
    case False
    with Cons.prems r have "sim_loop sim m ds (vec r) (h @ [snapshot_of d r]) = Inr (s', h')"
      by (simp add: Let_def)
    from Cons.IH [OF this] obtain h'' where
      h': "h' = (h @ [snapshot_of d r]) @ h''"
      and rest: "\<forall>i<length h''. \<exists>p. capture_prob sim m (vec r) i = Inr p \<and>
                    prob_capture (h'' ! i) = py_round p 3"
      by blast
    have "\<forall>i<length (snapshot_of d r # h''). \<exists>p. capture_prob sim m s i = Inr p \<and>
        prob_capture ((snapshot_of d r # h'') ! i) = py_round p 3"
    proof (intro allI impI)
      fix i assume i: "i < length (snapshot_of d r # h'')"
      show "\<exists>p. capture_prob sim m s i = Inr p \<and>
        prob_capture ((snapshot_of d r # h'') ! i) = py_round p 3"
      proof (cases i)
        case 0
        then show ?thesis using first by simp
      next
        case (Suc j)
        with i have "j < length h''" by simp
        with rest obtain p where "capture_prob sim m (vec r) j = Inr p"
          "prob_capture (h'' ! j) = py_round p 3" by blast
        then show ?thesis using Suc r by simp
      qed
    qed
    moreover have "h' = h @ (snapshot_of d r # h'')" using h' by simp
    ultimately show ?thesis by blast
  qed
qed

text \<open>
  C4 (as amended). In every snapshot of a run the encirclement score lies in [0,1],
  whatever the encirclement model returns: it is clipped before it is recorded. The
  capture probability is not clipped: what the snapshot of a day records is the capture
  probability of that day, which is an output of the capture model, rounded to three
  places. It lies in [0,1] when the outputs of the capture model do.
\<close>

theorem score_bounds:
  assumes "run_simulation sim city days scenario = Inr (Some h)"
  shows "(\<forall>x\<in>set h. 0 \<le> encirclement x \<and> encirclement x \<le> 1) \<and>
         (\<exists>s0. get_city_state sim city = Inr s0 \<and>
            (\<forall>i<length h. \<exists>p xs.
               capture_prob sim (modifier_of scenario) s0 i = Inr p \<and>
               p = predict_proba_C sim xs \<and>
               prob_capture (h ! i) = py_round p 3)) \<and>
         ((\<forall>xs. 0 \<le> predict_proba_C sim xs \<and> predict_proba_C sim xs \<le> 1) \<longrightarrow>
          (\<forall>x\<in>set h. 0 \<le> prob_capture x \<and> prob_capture x \<le> 1))"
proof -
  from assms obtain s0 s' where
    g: "get_city_state sim city = Inr s0"
    and loop: "sim_loop sim (modifier_of scenario) [1..days] s0 [] = Inr (s', h)"
    by (rule run_simulation_Some)
  have enc: "0 \<le> encirclement (snapshot_of d r) \<and> encirclement (snapshot_of d r) \<le> 1"
    if "day_step sim (modifier_of scenario) s = Inr r" for d s r
  proof -
    from that obtain input_B where "pred_encirclement r = clip (predict_B sim input_B) 0 1"
      by (auto elim!: day_step_Inr)
    then show ?thesis
      using clip_unit [of "predict_B sim input_B"] by (simp add: snapshot_of_def py_round_unit)
  qed
  from sim_loop_snapshots [OF loop, of "\<lambda>x. 0 \<le> encirclement x \<and> encirclement x \<le> 1"] enc
  have 1: "\<forall>x\<in>set h. 0 \<le> encirclement x \<and> encirclement x \<le> 1" by auto
  have rec: "\<forall>i<length h. \<exists>p xs.
               capture_prob sim (modifier_of scenario) s0 i = Inr p \<and>
               p = predict_proba_C sim xs \<and>
               prob_capture (h ! i) = py_round p 3"
  proof (intro allI impI)
    fix i assume "i < length h"
    with sim_loop_probs [OF loop] obtain p where
      p: "capture_prob sim (modifier_of scenario) s0 i = Inr p"
      "prob_capture (h ! i) = py_round p 3" by auto
    from capture_prob_output [OF p(1)] obtain xs where "p = predict_proba_C sim xs" ..
    with p show "\<exists>p xs. capture_prob sim (modifier_of scenario) s0 i = Inr p \<and>
               p = predict_proba_C sim xs \<and> prob_capture (h ! i) = py_round p 3"
      by blast
  qed
  have 2: "\<forall>x\<in>set h. 0 \<le> prob_capture x \<and> prob_capture x \<le> 1"
    if c: "\<forall>xs. 0 \<le> predict_proba_C sim xs \<and> predict_proba_C sim xs \<le> 1"
  proof
    fix x assume "x \<in> set h"
    then obtain i where i: "i < length h" "x = h ! i" by (auto simp: in_set_conv_nth)
    with rec obtain xs where "prob_capture x = py_round (predict_proba_C sim xs) 3" by blast
    with c show "0 \<le> prob_capture x \<and> prob_capture x \<le> 1" by (simp add: py_round_unit)
  qed
  from 1 g rec 2 show ?thesis by blast
qed

text \<open>
  An encirclement model answering 1.7 is recorded as 1, and a capture model answering
  0.2346 as 0.235.
\<close>

theorem score_bounds_witness:
  "run_simulation (stub_sim [city_row ''X'' 1 100 0] 10 1.7 0.2346) ''X'' 2 ''inertial''
     = Inr (Some [\<lparr>day = 1, dist_to_front = 90, delta_real = 10, encirclement = 1,
                    prob_capture = 0.235, status = FREE\<rparr>,
                  \<lparr>day = 2, dist_to_front = 80, delta_real = 10, encirclement = 1,
                    prob_capture = 0.235, status = FREE\<rparr>]) \<and>
   (\<forall>xs. 0 \<le> predict_proba_C (stub_sim [city_row ''X'' 1 100 0] 10 1.7 0.2346) xs \<and>
         predict_proba_C (stub_sim [city_row ''X'' 1 100 0] 10 1.7 0.2346) xs \<le> 1) \<and>
   capture_prob (stub_sim [city_row ''X'' 1 100 0] 10 1.7 0.2346) (modifier_of ''inertial'')
     (city_row ''X'' 1 100 0) 1 = Inr 0.2346 \<and>
   py_round 0.2346 3 = 0.235 \<and>
   (0::real) \<le> 1 \<and> (1::real) \<le> 1 \<and> (0::real) \<le> 0.235 \<and> (0.235::real) \<le> 1"
proof -
  let ?S = "stub_sim [city_row ''X'' 1 100 0] 10 1.7 0.2346"
  let ?h = "[\<lparr>day = 1, dist_to_front = 90, delta_real = 10, encirclement = 1,
                    prob_capture = 0.235, status = FREE\<rparr>,
                  \<lparr>day = 2, dist_to_front = 80, delta_real = 10, encirclement = 1,
                    prob_capture = 0.235, status = FREE\<rparr>]"
  have h: "run_simulation ?S ''X'' 2 ''inertial'' = Inr (Some ?h)"
    by (simp add: run_defs)
  have g: "get_city_state ?S ''X'' = Inr (city_row ''X'' 1 100 0)"
    by (simp add: run_defs)
  have c: "\<forall>xs. 0 \<le> predict_proba_C ?S xs \<and> predict_proba_C ?S xs \<le> 1"
    by (simp add: stub_sim_def)
  have e: "\<forall>x\<in>set ?h. 0 \<le> encirclement x \<and> encirclement x \<le> 1"
    using score_bounds [OF h] by (rule conjunct1)
  have q: "\<forall>x\<in>set ?h. 0 \<le> prob_capture x \<and> prob_capture x \<le> 1"
    using score_bounds [OF h, THEN conjunct2, THEN conjunct2, THEN mp, OF c] .
  from score_bounds [OF h, THEN conjunct2, THEN conjunct1] g
  have rec: "\<forall>i<length ?h. \<exists>p xs.
               capture_prob ?S (modifier_of ''inertial'') (city_row ''X'' 1 100 0) i = Inr p \<and>
               p = predict_proba_C ?S xs \<and> prob_capture (?h ! i) = py_round p 3"
    by auto
  have cp: "capture_prob ?S (modifier_of ''inertial'') (city_row ''X'' 1 100 0) 1
      = Inr 0.2346"
    by (simp add: run_defs)
  from rec have "\<exists>p xs.
               capture_prob ?S (modifier_of ''inertial'') (city_row ''X'' 1 100 0) 1 = Inr p \<and>
               p = predict_proba_C ?S xs \<and> prob_capture (?h ! 1) = py_round p 3"
    by (rule allE [of _ 1]) simp
  then obtain p where "capture_prob ?S (modifier_of ''inertial'') (city_row ''X'' 1 100 0) 1 = Inr p"
    and "prob_capture (?h ! 1) = py_round p 3" by blast
  with cp have "prob_capture (?h ! 1) = py_round 0.2346 3" by (simp only: sum.inject)
  then have r: "py_round 0.2346 3 = 0.235" by simp
  from e q have "(0::real) \<le> 1 \<and> (1::real) \<le> 1 \<and> (0::real) \<le> 0.235 \<and> (0.235::real) \<le> 1"
    by simp
  with h c cp r show ?thesis by (intro conjI) simp_all
qed

text \<open>
  The claim as stated fails: a capture model answering 1.7 is recorded as 1.7.
\<close>

theorem capture_probability_not_clipped:
  "run_simulation (stub_sim [city_row ''X'' 1 100 0] 10 0.5 1.7) ''X'' 3 ''inertial''
     = Inr (Some [\<lparr>day = 1, dist_to_front = 90, delta_real = 10, encirclement = 0.5,
                    prob_capture = 1.7, status = OCCUPIED\<rparr>]) \<and>
   \<not> prob_capture \<lparr>day = 1, dist_to_front = 90, delta_real = 10, encirclement = 0.5,
                    prob_capture = 1.7, status = OCCUPIED\<rparr> \<le> 1"
  by (simp add: run_defs)

subsection \<open>The latest state of a city\<close>









subsection \<open>Missing features\<close>

lemma those_None: "those xs = None \<longleftrightarrow> None \<in> set xs"
  by (induction xs) (auto split: option.splits)

lemma model_input_missing:
  assumes "\<exists>f\<in>set fs. s f = None"
  shows "model_input s fs = Inl (KeyError (missing_labels s fs))"
proof -
  from assms have "None \<in> set (map s fs)" by force
  then have "those (map s fs) = None" by (simp only: those_None)
  then show ?thesis by (simp add: model_input_def select_labels_def)
qed

text \<open>The error names the missing labels.\<close>

lemma set_missing_labels:
  assumes "\<exists>f\<in>set fs. s f = None"
  shows "set (missing_labels s fs) = {f \<in> set fs. s f = None}"
proof (cases "length (filter (\<lambda>f. s f = None) fs) = length fs")
  case True
  have "\<forall>f\<in>set fs. s f = None"
  proof (rule ccontr)
    assume "\<not> (\<forall>f\<in>set fs. s f = None)"
    then obtain f where "f \<in> set fs" "\<not> s f = None" by blast
    then have "length (filter (\<lambda>f. s f = None) fs) < length fs"
      by (rule length_filter_less)
    with True show False by simp
  qed
  with True show ?thesis by (auto simp: missing_labels_def)
next
  case False
  then show ?thesis by (auto simp: missing_labels_def unique_labels_def)
qed

text \<open>
  A pass that fails on the day after \<open>n\<close> days without capture makes the loop fail.
\<close>

lemma sim_loop_fail:
  assumes "n < length ds"
    and "\<forall>j<n. \<exists>p. capture_prob sim m s j = Inr p \<and> p \<le> 0.5"
    and "state_after sim m s n = Inr sn" and "day_step sim m sn = Inl e"
  shows "sim_loop sim m ds s h = Inl e"
  using assms
proof (induction ds arbitrary: n s h)
  case Nil
  then show ?case by simp
next
  case (Cons d ds)
  show ?case
  proof (cases n)
    case 0
    with Cons.prems show ?thesis by simp
  next
    case (Suc k)
    with Cons.prems have "\<exists>p. capture_prob sim m s 0 = Inr p \<and> p \<le> 0.5" by blast
    then obtain r where r: "day_step sim m s = Inr r" "prob r \<le> 0.5"
      by (auto split: sum.splits)
    have step: "sim_loop sim m (d # ds) s h = sim_loop sim m ds (vec r) (h @ [snapshot_of d r])"
      using r by (simp add: Let_def)
    have k: "k < length ds" using Cons.prems Suc by simp
    have before: "\<forall>j<k. \<exists>p. capture_prob sim m (vec r) j = Inr p \<and> p \<le> 0.5"
    proof (intro allI impI)
      fix j assume "j < k"
      then have "Suc j < n" using Suc by simp
      with Cons.prems have "\<exists>p. capture_prob sim m s (Suc j) = Inr p \<and> p \<le> 0.5" by blast
      then show "\<exists>p. capture_prob sim m (vec r) j = Inr p \<and> p \<le> 0.5" using r by simp
    qed
    have at: "state_after sim m (vec r) k = Inr sn" using Cons.prems Suc r by simp
    from Cons.IH [OF k before at Cons.prems(4)] step show ?thesis by simp
  qed
qed

lemma sim_loop_error:
  "day_step sim m s = Inl e \<Longrightarrow> sim_loop sim m (d # ds) s h = Inl e"
  by simp

text \<open>
  C9 (as amended). When the input of a model is built and the working vector, as it is
  at that moment, lacks a feature of that model, the pass of the loop body fails with
  the \<^verbatim>\<open>KeyError\<close> of pandas, which names the missing features of that model and
  nothing else (not the model). For the front model the vector is the one the day
  starts with; for the encirclement model it is that vector after the four writes of
  the front stage, for the capture model after the write of the encirclement score as
  well, the earlier stages having succeeded. A pass that fails makes the loop fail with
  the same error whatever history it has accumulated. And the run fails with it: when
  the anchor is found and not captured, \<open>n\<close> days within the horizon have passed with
  no capture, and the pass of the next day fails on the vector these days have left,
  \<^verbatim>\<open>run_simulation\<close> returns that error and no history, so no snapshot for that day nor
  for any other.
\<close>

theorem missing_feature_fatal:
  "((\<exists>f\<in>set (feats_A sim). s f = None) \<longrightarrow>
      day_step sim m s = Inl (KeyError (missing_labels s (feats_A sim)))) \<and>
   (model_input s (feats_A sim) = Inr input_A \<and>
    s ''dist_to_front_m'' = Some (Num cur) \<and>
    s ''momentum_7d'' = Some (Num m7) \<and>
    s ''momentum_30d'' = Some (Num m30) \<and>
    s1 = s(''delta_dist_daily'' \<mapsto> Num (predict_A sim input_A * m),
           ''momentum_7d'' \<mapsto> Num (m7 * 0.9 + predict_A sim input_A * m * 0.1),
           ''momentum_30d'' \<mapsto> Num (m30 * 0.95 + predict_A sim input_A * m * 0.05),
           ''dist_to_front_m'' \<mapsto> Num (max 0 (cur - predict_A sim input_A * m))) \<longrightarrow>
      ((\<exists>f\<in>set (feats_B sim). s1 f = None) \<longrightarrow>
         day_step sim m s = Inl (KeyError (missing_labels s1 (feats_B sim)))) \<and>
      (model_input s1 (feats_B sim) = Inr input_B \<and>
       s2 = s1(''encirclement_score'' \<mapsto> Num (clip (predict_B sim input_B) 0 1)) \<and>
       (\<exists>f\<in>set (feats_C sim). s2 f = None) \<longrightarrow>
         day_step sim m s = Inl (KeyError (missing_labels s2 (feats_C sim))))) \<and>
   ((\<exists>f\<in>set fs. v f = None) \<longrightarrow>
      set (missing_labels v fs) = {f \<in> set fs. v f = None}) \<and>
   (day_step sim m s = Inl e \<longrightarrow> sim_loop sim m (d # ds) s h = Inl e) \<and>
   (get_city_state sim city = Inr s0 \<and> s0 ''is_captured'' = Some c \<and> c \<noteq> Num 1 \<and>
    m = modifier_of scenario \<and> int n < days \<and>
    (\<forall>j<n. \<exists>p. capture_prob sim m s0 j = Inr p \<and> p \<le> 0.5) \<and>
    state_after sim m s0 n = Inr s \<and> day_step sim m s = Inl e \<longrightarrow>
      run_simulation sim city days scenario = Inl e)"
proof (intro conjI impI)
  assume "\<exists>f\<in>set (feats_A sim). s f = None"
  then have "model_input s (feats_A sim)
      = Inl (KeyError (missing_labels s (feats_A sim)))"
    by (rule model_input_missing)
  then show "day_step sim m s = Inl (KeyError (missing_labels s (feats_A sim)))"
    by (simp add: day_step_def)
next
  assume a: "model_input s (feats_A sim) = Inr input_A \<and>
    s ''dist_to_front_m'' = Some (Num cur) \<and>
    s ''momentum_7d'' = Some (Num m7) \<and>
    s ''momentum_30d'' = Some (Num m30) \<and>
    s1 = s(''delta_dist_daily'' \<mapsto> Num (predict_A sim input_A * m),
           ''momentum_7d'' \<mapsto> Num (m7 * 0.9 + predict_A sim input_A * m * 0.1),
           ''momentum_30d'' \<mapsto> Num (m30 * 0.95 + predict_A sim input_A * m * 0.05),
           ''dist_to_front_m'' \<mapsto> Num (max 0 (cur - predict_A sim input_A * m)))"
  have front: "day_step sim m s =
     (case model_input s1 (feats_B sim) of Inl e \<Rightarrow> Inl e | Inr input_B \<Rightarrow>
        (case model_input (s1(''encirclement_score'' \<mapsto> Num (clip (predict_B sim input_B) 0 1)))
                (feats_C sim) of
           Inl e \<Rightarrow> Inl e
         | Inr input_C \<Rightarrow>
             Inr \<lparr>vec = s1(''encirclement_score'' \<mapsto> Num (clip (predict_B sim input_B) 0 1)),
                  new_dist = max 0 (cur - predict_A sim input_A * m),
                  adjusted_delta = predict_A sim input_A * m,
                  pred_encirclement = clip (predict_B sim input_B) 0 1,
                  prob = predict_proba_C sim input_C\<rparr>))"
    using a by (auto simp: day_step_def Let_def get_num_def split: sum.splits)
  {
    assume "\<exists>f\<in>set (feats_B sim). s1 f = None"
    then have "model_input s1 (feats_B sim)
        = Inl (KeyError (missing_labels s1 (feats_B sim)))"
      by (rule model_input_missing)
    then show "day_step sim m s
        = Inl (KeyError (missing_labels s1 (feats_B sim)))"
      by (simp add: front)
  }
  {
    assume b: "model_input s1 (feats_B sim) = Inr input_B \<and>
       s2 = s1(''encirclement_score'' \<mapsto> Num (clip (predict_B sim input_B) 0 1)) \<and>
       (\<exists>f\<in>set (feats_C sim). s2 f = None)"
    from b have ib: "model_input s1 (feats_B sim) = Inr input_B"
      by (rule conjunct1)
    from b have "s2 = s1(''encirclement_score'' \<mapsto> Num (clip (predict_B sim input_B) 0 1))"
      by (rule conjunct2 [THEN conjunct1])
    then have s2: "s1(''encirclement_score'' \<mapsto> Num (clip (predict_B sim input_B) 0 1)) = s2"
      by (rule sym)
    from b have mc: "\<exists>f\<in>set (feats_C sim). s2 f = None"
      by (rule conjunct2 [THEN conjunct2])
    from mc have "model_input s2 (feats_C sim)
        = Inl (KeyError (missing_labels s2 (feats_C sim)))"
      by (rule model_input_missing)
    then show "day_step sim m s
        = Inl (KeyError (missing_labels s2 (feats_C sim)))"
      by (simp only: front ib s2 sum.case)
  }
next
  assume "\<exists>f\<in>set fs. v f = None"
  then show "set (missing_labels v fs) = {f \<in> set fs. v f = None}"
    by (rule set_missing_labels)
next
  assume "day_step sim m s = Inl e"
  then show "sim_loop sim m (d # ds) s h = Inl e" by (rule sim_loop_error)
next
  assume a: "get_city_state sim city = Inr s0 \<and> s0 ''is_captured'' = Some c \<and> c \<noteq> Num 1 \<and>
    m = modifier_of scenario \<and> int n < days \<and>
    (\<forall>j<n. \<exists>p. capture_prob sim m s0 j = Inr p \<and> p \<le> 0.5) \<and>
    state_after sim m s0 n = Inr s \<and> day_step sim m s = Inl e"
  then have "int n < days" by blast
  then have len: "n < length [1..days]" by simp
  from a have before: "\<forall>j<n. \<exists>p. capture_prob sim m s0 j = Inr p \<and> p \<le> 0.5"
    and at: "state_after sim m s0 n = Inr s" and fail: "day_step sim m s = Inl e"
    by blast+
  have "sim_loop sim m [1..days] s0 [] = Inl e"
    using len before at fail by (rule sim_loop_fail)
  with a show "run_simulation sim city days scenario = Inl e"
    by (simp add: run_simulation_def)
qed


text \<open>
  The claim as stated fails twice. An anchor without \<^verbatim>\<open>encirclement_score\<close>, which the
  capture model requires, runs to a normal history: the loop writes the score before
  the capture model reads it. And the error of a missing feature does not tell the
  models apart: the same feature missing for the front model or for the encirclement
  model gives the same error.
\<close>

theorem missing_feature_not_always_fatal:
  "((city_row ''X'' 7 100 0)(''encirclement_score'' := None)) ''encirclement_score'' = None \<and>
   ''encirclement_score''
     \<in> set (feats_C (stub_sim [(city_row ''X'' 7 100 0)(''encirclement_score'' := None)]
                     10 0.5 0.2)) \<and>
   run_simulation (stub_sim [(city_row ''X'' 7 100 0)(''encirclement_score'' := None)] 10 0.5 0.2)
     ''X'' 1 ''inertial''
     = Inr (Some [\<lparr>day = 1, dist_to_front = 90, delta_real = 10, encirclement = 0.5,
                    prob_capture = 0.2, status = FREE\<rparr>]) \<and>
   run_simulation (stub_sim [city_row ''X'' 7 100 0] 10 0.5 0.2\<lparr>feats_A := [''ru_total_lag1'']\<rparr>)
     ''X'' 1 ''inertial'' = Inl (KeyError [''ru_total_lag1'']) \<and>
   run_simulation (stub_sim [city_row ''X'' 7 100 0] 10 0.5 0.2\<lparr>feats_B := [''ru_total_lag1'']\<rparr>)
     ''X'' 1 ''inertial'' = Inl (KeyError [''ru_total_lag1''])"
  by (simp add: run_defs)

text \<open>A feature missing for each of the three models in turn.\<close>

theorem missing_feature_fatal_witness:
  "day_step (stub_sim [] 10 0.5 0.2\<lparr>feats_A := [''ru_total_lag1'', ''momentum_7d'']\<rparr>) 1
     (city_row ''X'' 7 100 0) = Inl (KeyError [''ru_total_lag1'']) \<and>
   day_step (stub_sim [] 10 0.5 0.2\<lparr>feats_B := [''ru_armor_lag1'', ''dist_to_front_m'']\<rparr>) 1
     (city_row ''X'' 7 100 0) = Inl (KeyError [''ru_armor_lag1'']) \<and>
   day_step (stub_sim [] 10 0.5 0.2\<lparr>feats_C := [''uk_total'', ''encirclement_score'']\<rparr>) 1
     (city_row ''X'' 7 100 0) = Inl (KeyError [''uk_total'']) \<and>
   sim_loop (stub_sim [] 10 0.5 0.2\<lparr>feats_C := [''uk_total'', ''encirclement_score'']\<rparr>) 1
     [1, 2] (city_row ''X'' 7 100 0) [] = Inl (KeyError [''uk_total'']) \<and>
   set [''uk_total''] = {f \<in> set [''uk_total'', ''dist_to_front_m'']. city_row ''X'' 7 100 0 f = None} \<and>
   run_simulation
     (stub_sim [city_row ''X'' 7 100 0] 10 0.5 0.2\<lparr>feats_B := [''ru_armor_lag1'', ''dist_to_front_m'']\<rparr>)
     ''X'' 5 ''inertial'' = Inl (KeyError [''ru_armor_lag1''])"
proof -
  let ?s = "city_row ''X'' 7 100 0"
  let ?s1 = "?s(''delta_dist_daily'' \<mapsto> Num (10 * 1),
           ''momentum_7d'' \<mapsto> Num (0 * 0.9 + 10 * 1 * 0.1),
           ''momentum_30d'' \<mapsto> Num (0 * 0.95 + 10 * 1 * 0.05),
           ''dist_to_front_m'' \<mapsto> Num (max 0 (100 - 10 * 1)))"
  let ?s2 = "?s1(''encirclement_score'' \<mapsto> Num (clip 0.5 0 1))"
  let ?A = "stub_sim [] 10 0.5 0.2\<lparr>feats_A := [''ru_total_lag1'', ''momentum_7d'']\<rparr>"
  let ?B = "stub_sim [] 10 0.5 0.2\<lparr>feats_B := [''ru_armor_lag1'', ''dist_to_front_m'']\<rparr>"
  let ?C = "stub_sim [] 10 0.5 0.2\<lparr>feats_C := [''uk_total'', ''encirclement_score'']\<rparr>"
  have ha: "\<exists>f\<in>set (feats_A ?A). ?s f = None"
    by (simp add: stub_sim_def city_row_def)
  have a: "day_step ?A 1 ?s = Inl (KeyError (missing_labels ?s (feats_A ?A)))"
    using missing_feature_fatal [THEN conjunct1, THEN mp, OF ha] .
  have front: "model_input ?s (feats_A ?B) = Inr [100, 0] \<and>
    ?s ''dist_to_front_m'' = Some (Num 100) \<and>
    ?s ''momentum_7d'' = Some (Num 0) \<and>
    ?s ''momentum_30d'' = Some (Num 0) \<and>
    ?s1 = ?s(''delta_dist_daily'' \<mapsto> Num (predict_A ?B [100, 0] * 1),
           ''momentum_7d'' \<mapsto> Num (0 * 0.9 + predict_A ?B [100, 0] * 1 * 0.1),
           ''momentum_30d'' \<mapsto> Num (0 * 0.95 + predict_A ?B [100, 0] * 1 * 0.05),
           ''dist_to_front_m'' \<mapsto> Num (max 0 (100 - predict_A ?B [100, 0] * 1)))"
    by (simp add: run_defs)
  have hb: "\<exists>f\<in>set (feats_B ?B). ?s1 f = None"
    by (simp add: stub_sim_def city_row_def)
  have b: "day_step ?B 1 ?s = Inl (KeyError (missing_labels ?s1 (feats_B ?B)))"
    using missing_feature_fatal [THEN conjunct2, THEN conjunct1, THEN mp, OF front,
        THEN conjunct1, THEN mp, OF hb] .
  have front': "model_input ?s (feats_A ?C) = Inr [100, 0] \<and>
    ?s ''dist_to_front_m'' = Some (Num 100) \<and>
    ?s ''momentum_7d'' = Some (Num 0) \<and>
    ?s ''momentum_30d'' = Some (Num 0) \<and>
    ?s1 = ?s(''delta_dist_daily'' \<mapsto> Num (predict_A ?C [100, 0] * 1),
           ''momentum_7d'' \<mapsto> Num (0 * 0.9 + predict_A ?C [100, 0] * 1 * 0.1),
           ''momentum_30d'' \<mapsto> Num (0 * 0.95 + predict_A ?C [100, 0] * 1 * 0.05),
           ''dist_to_front_m'' \<mapsto> Num (max 0 (100 - predict_A ?C [100, 0] * 1)))"
    by (simp add: run_defs)
  have hc: "model_input ?s1 (feats_B ?C) = Inr [90, 10] \<and>
       ?s2 = ?s1(''encirclement_score'' \<mapsto> Num (clip (predict_B ?C [90, 10]) 0 1)) \<and>
       (\<exists>f\<in>set (feats_C ?C). ?s2 f = None)"
    by (simp add: run_defs)
  have c: "day_step ?C 1 ?s = Inl (KeyError (missing_labels ?s2 (feats_C ?C)))"
    using missing_feature_fatal [THEN conjunct2, THEN conjunct1, THEN mp, OF front',
        THEN conjunct2, THEN mp, OF hc] .
  have l: "sim_loop ?C 1 [1, 2] ?s []
             = Inl (KeyError (missing_labels ?s2 (feats_C ?C)))"
    using missing_feature_fatal [THEN conjunct2, THEN conjunct2, THEN conjunct2,
        THEN conjunct1, THEN mp, OF c] .
  have hs: "\<exists>f\<in>set [''uk_total'', ''dist_to_front_m'']. ?s f = None"
    by (simp add: city_row_def)
  have st: "set (missing_labels ?s [''uk_total'', ''dist_to_front_m''])
              = {f \<in> set [''uk_total'', ''dist_to_front_m'']. ?s f = None}"
    using missing_feature_fatal [THEN conjunct2, THEN conjunct2, THEN conjunct1, THEN mp, OF hs] .
  let ?R = "stub_sim [city_row ''X'' 7 100 0] 10 0.5 0.2
              \<lparr>feats_B := [''ru_armor_lag1'', ''dist_to_front_m'']\<rparr>"
  have br: "day_step ?R (modifier_of ''inertial'') ?s = Inl (KeyError [''ru_armor_lag1''])"
    by (simp add: run_defs)
  have hr: "get_city_state ?R ''X'' = Inr ?s \<and> ?s ''is_captured'' = Some (Num 0) \<and>
    Num 0 \<noteq> Num 1 \<and> modifier_of ''inertial'' = modifier_of ''inertial'' \<and> int 0 < 5 \<and>
    (\<forall>j<0. \<exists>p. capture_prob ?R (modifier_of ''inertial'') ?s j = Inr p \<and> p \<le> 0.5) \<and>
    state_after ?R (modifier_of ''inertial'') ?s 0 = Inr ?s \<and>
    day_step ?R (modifier_of ''inertial'') ?s = Inl (KeyError [''ru_armor_lag1''])"
    using br by (simp add: run_defs)
  have r: "run_simulation ?R ''X'' 5 ''inertial'' = Inl (KeyError [''ru_armor_lag1''])"
    using missing_feature_fatal [THEN conjunct2, THEN conjunct2, THEN conjunct2,
        THEN conjunct2, THEN mp, OF hr] .
  have m: "missing_labels ?s [''uk_total'', ''dist_to_front_m''] = [''uk_total'']"
    by (simp add: missing_labels_def unique_labels_def city_row_def)
  from a b c l st [unfolded m] r show ?thesis
    by (simp add: stub_sim_def city_row_def missing_labels_def unique_labels_def)
qed

subsection \<open>The aggressive and the conservative scenario\<close>

lemma clamp_iter_mono:
  fixes a b :: real
  assumes "b \<le> a"
  shows "((\<lambda>d. max 0 (d - a)) ^^ n) x \<le> ((\<lambda>d. max 0 (d - b)) ^^ n) x"
proof (induction n)
  case 0
  then show ?case by simp
next
  case (Suc n)
  with assms show ?case by (simp add: max_def)
qed

text \<open>
  With a front model that answers \<open>c\<close> on every input, the distance recorded on day
  \<open>i + 1\<close> is the anchor's distance after \<open>i + 1\<close> clamped steps of \<open>c * modifier\<close>.
\<close>

lemma sim_loop_distances:
  assumes "sim_loop sim m ds s h = Inr (s', h')"
    and "\<forall>xs. predict_A sim xs = c"
  shows "\<exists>h''. h' = h @ h'' \<and>
           (h'' = [] \<or>
            (\<exists>cur. s ''dist_to_front_m'' = Some (Num cur) \<and>
               (\<forall>i<length h''. dist_to_front (h'' ! i)
                    = py_round (((\<lambda>d. max 0 (d - c * m)) ^^ Suc i) cur) 0)))"
  using assms(1)
proof (induction ds arbitrary: s h)
  case Nil
  then show ?case by simp
next
  case (Cons d ds)
  from Cons.prems obtain r where r: "day_step sim m s = Inr r"
    by (auto split: sum.splits)
  from r assms(2) obtain cur where cur: "s ''dist_to_front_m'' = Some (Num cur)"
    and nd: "new_dist r = max 0 (cur - c * m)"
    and v: "vec r ''dist_to_front_m'' = Some (Num (new_dist r))"
    by (auto elim!: day_step_Inr)
  have first: "dist_to_front (snapshot_of d r) = py_round (max 0 (cur - c * m)) 0"
    by (simp add: snapshot_of_def nd)
  show ?case
  proof (cases "0.5 < prob r")
    case True
    with Cons.prems r have "h' = h @ [snapshot_of d r]" by (simp add: Let_def)
    moreover have "\<forall>i<length [snapshot_of d r]. dist_to_front ([snapshot_of d r] ! i)
        = py_round (((\<lambda>d. max 0 (d - c * m)) ^^ Suc i) cur) 0"
      using first by simp
    ultimately show ?thesis using cur by blast
  next
    case False
    with Cons.prems r have "sim_loop sim m ds (vec r) (h @ [snapshot_of d r]) = Inr (s', h')"
      by (simp add: Let_def)
    from Cons.IH [OF this] obtain h'' where
      h': "h' = (h @ [snapshot_of d r]) @ h''"
      and rest: "h'' = [] \<or>
            (\<exists>cur'. vec r ''dist_to_front_m'' = Some (Num cur') \<and>
               (\<forall>i<length h''. dist_to_front (h'' ! i)
                    = py_round (((\<lambda>d. max 0 (d - c * m)) ^^ Suc i) cur') 0))"
      by blast
    have all: "\<forall>i<length (snapshot_of d r # h'').
        dist_to_front ((snapshot_of d r # h'') ! i)
          = py_round (((\<lambda>d. max 0 (d - c * m)) ^^ Suc i) cur) 0"
    proof (intro allI impI)
      fix i assume i: "i < length (snapshot_of d r # h'')"
      show "dist_to_front ((snapshot_of d r # h'') ! i)
          = py_round (((\<lambda>d. max 0 (d - c * m)) ^^ Suc i) cur) 0"
      proof (cases i)
        case 0
        then show ?thesis using first by simp
      next
        case (Suc j)
        with i have j: "j < length h''" by simp
        then have "h'' \<noteq> []" by auto
        with rest v nd have "\<forall>i<length h''. dist_to_front (h'' ! i)
            = py_round (((\<lambda>d. max 0 (d - c * m)) ^^ Suc i) (max 0 (cur - c * m))) 0"
          by auto
        with j have "dist_to_front (h'' ! j)
            = py_round (((\<lambda>d. max 0 (d - c * m)) ^^ Suc j) (max 0 (cur - c * m))) 0"
          by blast
        also have "((\<lambda>d. max 0 (d - c * m)) ^^ Suc j) (max 0 (cur - c * m))
            = ((\<lambda>d. max 0 (d - c * m)) ^^ Suc (Suc j)) cur"
          by (simp only: funpow_Suc_right o_apply)
        finally show ?thesis using Suc by simp
      qed
    qed
    have "h' = h @ (snapshot_of d r # h'')" using h' by simp
    with all cur show ?thesis by blast
  qed
qed

text \<open>The order of the recorded distances, for the runs as functions of the table.\<close>

lemma constant_front_order:
  assumes "\<forall>xs. predict_A sim xs = c" and "0 \<le> c"
    and "run_simulation sim city days_a ''aggressive'' = Inr (Some ha)"
    and "run_simulation sim city days_c ''conservative'' = Inr (Some hc)"
  shows "(\<exists>s0 sa sc. get_city_state sim city = Inr s0 \<and>
            sim_loop sim 1.5 [1..days_a] s0 [] = Inr (sa, ha) \<and>
            sim_loop sim 0.5 [1..days_c] s0 [] = Inr (sc, hc)) \<and>
         (\<forall>k. k < length ha \<and> k < length hc \<longrightarrow>
            dist_to_front (ha ! k) \<le> dist_to_front (hc ! k))"
proof -
  have ma: "modifier_of ''aggressive'' = 1.5" and mc: "modifier_of ''conservative'' = 0.5"
    by (simp_all add: modifier_of_def modifiers_def)
  from assms(3) obtain s0 sa where s0: "get_city_state sim city = Inr s0"
    and la: "sim_loop sim 1.5 [1..days_a] s0 [] = Inr (sa, ha)"
    by (auto elim!: run_simulation_Some simp: ma)
  from assms(4) s0 obtain sc where lc: "sim_loop sim 0.5 [1..days_c] s0 [] = Inr (sc, hc)"
    by (auto elim!: run_simulation_Some simp: mc)
  have le: "dist_to_front (ha ! k) \<le> dist_to_front (hc ! k)"
    if k: "k < length ha \<and> k < length hc" for k
  proof -
    from k have nea: "ha \<noteq> []" and nec: "hc \<noteq> []" by auto
    from sim_loop_distances [OF la assms(1)] nea obtain cur where
      cur: "s0 ''dist_to_front_m'' = Some (Num cur)"
      and da: "\<forall>i<length ha. dist_to_front (ha ! i)
                 = py_round (((\<lambda>d. max 0 (d - c * 1.5)) ^^ Suc i) cur) 0"
      by auto
    from sim_loop_distances [OF lc assms(1)] nec cur have
      dc: "\<forall>i<length hc. dist_to_front (hc ! i)
                 = py_round (((\<lambda>d. max 0 (d - c * 0.5)) ^^ Suc i) cur) 0"
      by auto
    have "c * 0.5 \<le> c * 1.5" using assms(2) by simp
    then have "((\<lambda>d. max 0 (d - c * 1.5)) ^^ Suc k) cur \<le> ((\<lambda>d. max 0 (d - c * 0.5)) ^^ Suc k) cur"
      by (rule clamp_iter_mono)
    then have "py_round (((\<lambda>d. max 0 (d - c * 1.5)) ^^ Suc k) cur) 0
        \<le> py_round (((\<lambda>d. max 0 (d - c * 0.5)) ^^ Suc k) cur) 0"
      by (rule py_round_mono)
    with da dc k show ?thesis by simp
  qed
  from s0 la lc le show ?thesis by blast
qed


text \<open>The loop in memory is the loop on the object at the address, written back there.\<close>

lemma sim_loop_mem_pure:
  assumes "a < length mem"
  shows "sim_loop_mem sim m ds a mem h
           = map_sum id (\<lambda>(s, h'). (mem[a := s], h')) (sim_loop sim m ds (mem ! a) h)"
  using assms
proof (induction ds arbitrary: mem h)
  case Nil
  then show ?case by simp
next
  case (Cons d ds)
  show ?case
  proof (cases "day_step sim m (mem ! a)")
    case (Inl e)
    then show ?thesis by simp
  next
    case (Inr r)
    show ?thesis
    proof (cases "0.5 < prob r")
      case True
      with Inr show ?thesis by (simp add: Let_def)
    next
      case False
      have "a < length (mem[a := vec r])" using Cons.prems by simp
      from Cons.IH [OF this, of "h @ [snapshot_of d r]"] Cons.prems Inr False
      show ?thesis by (simp add: Let_def)
    qed
  qed
qed

lemma day_step_df: "day_step (sim\<lparr>df := tbl\<rparr>) m s = day_step sim m s"
  by (simp add: day_step_def Let_def split: sum.splits)

lemma sim_loop_df: "sim_loop (sim\<lparr>df := tbl\<rparr>) m ds s h = sim_loop sim m ds s h"
  by (induction ds arbitrary: s h) (simp_all add: day_step_df Let_def split: sum.splits)

lemma insort_key_map:
  "insort_key f (g x) (map g ys) = map g (insort_key (\<lambda>i. f (g i)) x ys)"
  by (induction ys) simp_all

lemma sort_key_map: "sort_key f (map g xs) = map g (sort_key (\<lambda>i. f (g i)) xs)"
  by (induction xs) (simp_all add: insort_key_map)

text \<open>The row found in memory holds the state found in the table.\<close>

lemma get_city_row_pure:
  "get_city_state (sim\<lparr>df := map ((!) mem) rows\<rparr>) city
     = map_sum id ((!) mem) (get_city_row rows mem city)"
proof -
  let ?cd = "filter (\<lambda>i. (mem ! i) ''name'' = Some (Text city)) rows"
  let ?sorted = "sort_key (\<lambda>i. date_of (mem ! i)) (filter (\<lambda>i. dated (mem ! i)) ?cd)
                   @ filter (\<lambda>i. \<not> dated (mem ! i)) ?cd"
  have f: "filter (\<lambda>r. r ''name'' = Some (Text city)) (map ((!) mem) rows) = map ((!) mem) ?cd"
    by (simp add: filter_map o_def)
  have s: "sort_values_date (map ((!) mem) ?cd) = map ((!) mem) ?sorted"
    by (simp add: sort_values_date_def filter_map o_def sort_key_map)
  show ?thesis
  proof (cases "?cd = []")
    case True
    then show ?thesis by (simp add: get_city_state_def get_city_row_def f)
  next
    case False
    have "length ?sorted = length ?cd"
      by (simp only: length_append length_sort sum_length_filter_compl)
    with False have "?sorted \<noteq> []" by (metis length_0_conv)
    then have "last (map ((!) mem) ?sorted) = mem ! last ?sorted" by (rule last_map)
    with False show ?thesis
      by (simp add: get_city_state_def get_city_row_def f s Let_def)
  qed
qed

text \<open>
  A run in memory returns what the run on the table held at the row addresses returns.
\<close>

lemma run_simulation_mem_pure:
  "map_sum id snd (run_simulation_mem sim rows mem city days scenario)
     = run_simulation (sim\<lparr>df := map ((!) mem) rows\<rparr>) city days scenario"
proof (cases "get_city_row rows mem city")
  case (Inl e)
  then show ?thesis
    by (simp add: run_simulation_mem_def run_simulation_def get_city_row_pure)
next
  case (Inr row)
  have l: "sim_loop_mem sim m ds (length mem) (mem @ [mem ! row]) []
      = map_sum id (\<lambda>(s, h'). ((mem @ [mem ! row])[length mem := s], h'))
          (sim_loop sim m ds (mem ! row) [])" for m ds
    using sim_loop_mem_pure [of "length mem" "mem @ [mem ! row]" sim m ds "[]"] by simp
  show ?thesis
    using Inr
    by (auto simp: run_simulation_mem_def run_simulation_def get_city_row_pure Let_def l
        sim_loop_df split: option.splits sum.splits)
qed

text \<open>A run leaves every object that was in memory as it was, and adds one object.\<close>

lemma run_simulation_mem_frame:
  assumes "run_simulation_mem sim rows mem city days scenario = Inr (mem', res)"
  shows "\<exists>w. mem' = mem @ [w]"
proof -
  from assms obtain row where row: "get_city_row rows mem city = Inr row"
    by (auto simp: run_simulation_mem_def split: sum.splits)
  have l: "sim_loop_mem sim m ds (length mem) (mem @ [mem ! row]) []
      = map_sum id (\<lambda>(s, h'). ((mem @ [mem ! row])[length mem := s], h'))
          (sim_loop sim m ds (mem ! row) [])" for m ds
    using sim_loop_mem_pure [of "length mem" "mem @ [mem ! row]" sim m ds "[]"] by simp
  show ?thesis
  proof (cases "sim_loop sim (modifier_of scenario) [1..days] (mem ! row) []")
    case (Inl e)
    with assms row show ?thesis
      by (auto simp: run_simulation_mem_def Let_def l split: option.splits if_splits)
  next
    case (Inr p)
    with assms row show ?thesis
      by (cases p)
        (auto simp: run_simulation_mem_def Let_def l split: option.splits if_splits)
  qed
qed

text \<open>So a run started on the memory another run has left returns what it returns on
  the memory before that run.\<close>

lemma run_simulation_mem_after:
  assumes "\<forall>i\<in>set rows. i < length mem"
    and "run_simulation_mem sim rows mem city days scenario = Inr (mem', res)"
  shows "(\<forall>i<length mem. mem' ! i = mem ! i) \<and>
         map_sum id snd (run_simulation_mem sim rows mem' city' days' scenario')
           = map_sum id snd (run_simulation_mem sim rows mem city' days' scenario')"
proof -
  from run_simulation_mem_frame [OF assms(2)] obtain w where w: "mem' = mem @ [w]" ..
  then have same: "\<forall>i<length mem. mem' ! i = mem ! i" by (simp add: nth_append)
  with assms(1) have eq: "map ((!) mem') rows = map ((!) mem) rows" by simp
  have "map_sum id snd (run_simulation_mem sim rows mem' city' days' scenario')
           = map_sum id snd (run_simulation_mem sim rows mem city' days' scenario')"
    by (simp only: run_simulation_mem_pure eq)
  with same show ?thesis by (rule conjI)
qed

text \<open>
  C7 (as amended). The runs are taken in memory, where the rows of the table and the
  vector the loop writes to are objects at addresses, and one after the other: the
  conservative run starts on the memory the aggressive run has left. The front model
  answers the same delta on every input, and this delta is not negative; the other two
  models are arbitrary. If both runs return a history, then every object that was in
  memory before the runs, the rows of the table among them, is unchanged after each of
  them (each run has written to a copy of its own); any run of any city, horizon and
  scenario started after either of them returns what it returns on the memory before
  them, so neither run sees what the other has written; and on every day that both
  histories have, the distance recorded by the aggressive run is at most the one
  recorded by the conservative run.
\<close>

theorem aggressive_not_behind_conservative:
  assumes "\<forall>i\<in>set rows. i < length mem"
    and "\<forall>xs. predict_A sim xs = c" and "0 \<le> c"
    and "run_simulation_mem sim rows mem city days_a ''aggressive'' = Inr (mem1, Some ha)"
    and "run_simulation_mem sim rows mem1 city days_c ''conservative'' = Inr (mem2, Some hc)"
  shows "(\<forall>i<length mem. mem1 ! i = mem ! i \<and> mem2 ! i = mem ! i) \<and>
         (\<forall>city' days' scenario'.
            map_sum id snd (run_simulation_mem sim rows mem1 city' days' scenario')
              = map_sum id snd (run_simulation_mem sim rows mem city' days' scenario') \<and>
            map_sum id snd (run_simulation_mem sim rows mem2 city' days' scenario')
              = map_sum id snd (run_simulation_mem sim rows mem city' days' scenario')) \<and>
         (\<forall>k. k < length ha \<and> k < length hc \<longrightarrow>
            dist_to_front (ha ! k) \<le> dist_to_front (hc ! k))"
proof -
  let ?sim = "sim\<lparr>df := map ((!) mem) rows\<rparr>"
  from run_simulation_mem_frame [OF assms(4)] obtain w where w: "mem1 = mem @ [w]" ..
  then have rows1: "\<forall>i\<in>set rows. i < length mem1" using assms(1) by auto
  have after1: "(\<forall>i<length mem. mem1 ! i = mem ! i) \<and>
         map_sum id snd (run_simulation_mem sim rows mem1 city' days' scenario')
           = map_sum id snd (run_simulation_mem sim rows mem city' days' scenario')"
    for city' days' scenario'
    using assms(1,4) by (rule run_simulation_mem_after)
  have after2: "(\<forall>i<length mem1. mem2 ! i = mem1 ! i) \<and>
         map_sum id snd (run_simulation_mem sim rows mem2 city' days' scenario')
           = map_sum id snd (run_simulation_mem sim rows mem1 city' days' scenario')"
    for city' days' scenario'
    using rows1 assms(5) by (rule run_simulation_mem_after)
  have frame: "\<forall>i<length mem. mem1 ! i = mem ! i \<and> mem2 ! i = mem ! i"
    using after1 after2 w by auto
  have indep: "\<forall>city' days' scenario'.
            map_sum id snd (run_simulation_mem sim rows mem1 city' days' scenario')
              = map_sum id snd (run_simulation_mem sim rows mem city' days' scenario') \<and>
            map_sum id snd (run_simulation_mem sim rows mem2 city' days' scenario')
              = map_sum id snd (run_simulation_mem sim rows mem city' days' scenario')"
    using after1 after2 by simp
  have pa: "run_simulation ?sim city days_a ''aggressive'' = Inr (Some ha)"
    using run_simulation_mem_pure [of sim rows mem city days_a "''aggressive''"] assms(4)
    by simp
  have "map_sum id snd (run_simulation_mem sim rows mem city days_c ''conservative'')
          = Inr (Some hc)"
    using after1 [of city days_c "''conservative''"] assms(5) by simp
  then have pc: "run_simulation ?sim city days_c ''conservative'' = Inr (Some hc)"
    by (simp add: run_simulation_mem_pure)
  have "\<forall>xs. predict_A ?sim xs = c" using assms(2) by simp
  from constant_front_order [OF this assms(3) pa pc]
  have order: "\<forall>k. k < length ha \<and> k < length hc \<longrightarrow>
            dist_to_front (ha ! k) \<le> dist_to_front (hc ! k)"
    by (rule conjunct2)
  from frame indep order show ?thesis by (intro conjI)
qed

text \<open>
  The claim as stated fails for deterministic stubs in general. With a front model
  answering -10 m (the front recedes), the aggressive run is at 115 m on day 1 and the
  conservative one at 105 m. With the front model that brakes near the city, whose
  answers are never negative, the aggressive run stays at 85 m on day 2 while the
  conservative one reaches 0 m.
\<close>

theorem aggressive_can_fall_behind:
  "run_simulation (stub_sim [city_row ''X'' 7 100 0] (- 10) 0.5 0.2) ''X'' 1 ''aggressive''
     = Inr (Some [\<lparr>day = 1, dist_to_front = 115, delta_real = - 15, encirclement = 0.5,
                    prob_capture = 0.2, status = FREE\<rparr>]) \<and>
   run_simulation (stub_sim [city_row ''X'' 7 100 0] (- 10) 0.5 0.2) ''X'' 1 ''conservative''
     = Inr (Some [\<lparr>day = 1, dist_to_front = 105, delta_real = - 5, encirclement = 0.5,
                    prob_capture = 0.2, status = FREE\<rparr>]) \<and>
   \<not> (115::real) \<le> 105 \<and>
   run_simulation (braking_sim [city_row ''X'' 7 100 0]) ''X'' 2 ''aggressive''
     = Inr (Some [\<lparr>day = 1, dist_to_front = 85, delta_real = 15, encirclement = 0.5,
                    prob_capture = 0.2, status = FREE\<rparr>,
                  \<lparr>day = 2, dist_to_front = 85, delta_real = 0, encirclement = 0.5,
                    prob_capture = 0.2, status = FREE\<rparr>]) \<and>
   run_simulation (braking_sim [city_row ''X'' 7 100 0]) ''X'' 2 ''conservative''
     = Inr (Some [\<lparr>day = 1, dist_to_front = 95, delta_real = 5, encirclement = 0.5,
                    prob_capture = 0.2, status = FREE\<rparr>,
                  \<lparr>day = 2, dist_to_front = 0, delta_real = 100, encirclement = 0.5,
                    prob_capture = 0.2, status = FREE\<rparr>]) \<and>
   \<not> (85::real) \<le> 0"
  by (simp add: run_defs)

text \<open>
  A front advancing 30 m a day, over 3 days and then over 2 days, on a table of one row
  at address 0. After the aggressive run the row is as it was, at 100 m, and the vector
  the run has written to is another object, at address 1 and at 0 m.
\<close>

theorem aggressive_not_behind_conservative_witness:
  "(\<forall>xs. predict_A (stub_sim [] 30 0.5 0.2) xs = 30) \<and>
   run_simulation_mem (stub_sim [] 30 0.5 0.2) [0] [city_row ''X'' 7 100 0] ''X'' 3 ''aggressive''
     = Inr (fst (projr (run_simulation_mem (stub_sim [] 30 0.5 0.2) [0]
                          [city_row ''X'' 7 100 0] ''X'' 3 ''aggressive'')),
            Some [\<lparr>day = 1, dist_to_front = 55, delta_real = 45, encirclement = 0.5,
                    prob_capture = 0.2, status = FREE\<rparr>,
                  \<lparr>day = 2, dist_to_front = 10, delta_real = 45, encirclement = 0.5,
                    prob_capture = 0.2, status = FREE\<rparr>,
                  \<lparr>day = 3, dist_to_front = 0, delta_real = 45, encirclement = 0.5,
                    prob_capture = 0.2, status = FREE\<rparr>]) \<and>
   map_sum id snd
     (run_simulation_mem (stub_sim [] 30 0.5 0.2) [0]
        (fst (projr (run_simulation_mem (stub_sim [] 30 0.5 0.2) [0]
                       [city_row ''X'' 7 100 0] ''X'' 3 ''aggressive'')))
        ''X'' 2 ''conservative'')
     = Inr (Some [\<lparr>day = 1, dist_to_front = 85, delta_real = 15, encirclement = 0.5,
                    prob_capture = 0.2, status = FREE\<rparr>,
                  \<lparr>day = 2, dist_to_front = 70, delta_real = 15, encirclement = 0.5,
                    prob_capture = 0.2, status = FREE\<rparr>]) \<and>
   fst (projr (run_simulation_mem (stub_sim [] 30 0.5 0.2) [0]
                 [city_row ''X'' 7 100 0] ''X'' 3 ''aggressive'')) ! 0
     = city_row ''X'' 7 100 0 \<and>
   (fst (projr (run_simulation_mem (stub_sim [] 30 0.5 0.2) [0]
                  [city_row ''X'' 7 100 0] ''X'' 3 ''aggressive'')) ! 1) ''dist_to_front_m''
     = Some (Num 0) \<and>
   city_row ''X'' 7 100 0 ''dist_to_front_m'' = Some (Num 100) \<and>
   (55::real) \<le> 85 \<and> (10::real) \<le> 70"
proof -
  let ?S = "stub_sim [] 30 0.5 0.2"
  let ?M = "[city_row ''X'' 7 100 0]"
  let ?ha = "[\<lparr>day = 1, dist_to_front = 55, delta_real = 45, encirclement = 0.5,
                    prob_capture = 0.2, status = FREE\<rparr>,
                  \<lparr>day = 2, dist_to_front = 10, delta_real = 45, encirclement = 0.5,
                    prob_capture = 0.2, status = FREE\<rparr>,
                  \<lparr>day = 3, dist_to_front = 0, delta_real = 45, encirclement = 0.5,
                    prob_capture = 0.2, status = FREE\<rparr>]"
  let ?hc = "[\<lparr>day = 1, dist_to_front = 85, delta_real = 15, encirclement = 0.5,
                    prob_capture = 0.2, status = FREE\<rparr>,
                  \<lparr>day = 2, dist_to_front = 70, delta_real = 15, encirclement = 0.5,
                    prob_capture = 0.2, status = FREE\<rparr>]"
  let ?M1 = "fst (projr (run_simulation_mem ?S [0] ?M ''X'' 3 ''aggressive''))"
  let ?M2 = "fst (projr (run_simulation_mem ?S [0] ?M1 ''X'' 2 ''conservative''))"
  have rows: "\<forall>i\<in>set [0::nat]. i < length ?M" by simp
  have p: "\<forall>xs. predict_A ?S xs = 30" by (simp add: stub_sim_def)
  have n: "(0::real) \<le> 30" by simp
  have a: "run_simulation_mem ?S [0] ?M ''X'' 3 ''aggressive'' = Inr (?M1, Some ?ha)"
    by (simp add: run_defs run_simulation_mem_def get_city_row_def)
  have w: "(?M1 ! 1) ''dist_to_front_m'' = Some (Num 0)"
    by (simp add: run_defs run_simulation_mem_def get_city_row_def)
  have c: "run_simulation_mem ?S [0] ?M1 ''X'' 2 ''conservative'' = Inr (?M2, Some ?hc)"
    by (simp add: run_defs run_simulation_mem_def get_city_row_def)
  note t = aggressive_not_behind_conservative [OF rows p n a c]
  have f: "?M1 ! 0 = ?M ! 0"
    using t [THEN conjunct1, THEN spec, of 0] by simp
  have o: "\<forall>k. k < length ?ha \<and> k < length ?hc \<longrightarrow>
             dist_to_front (?ha ! k) \<le> dist_to_front (?hc ! k)"
    using t by (rule conjunct2 [THEN conjunct2])
  have "dist_to_front (?ha ! 0) \<le> dist_to_front (?hc ! 0)"
    by (rule o [THEN spec, THEN mp]) simp
  moreover have "dist_to_front (?ha ! 1) \<le> dist_to_front (?hc ! 1)"
    by (rule o [THEN spec, THEN mp]) simp
  ultimately have le: "(55::real) \<le> 85 \<and> (10::real) \<le> 70" by simp
  have r2: "map_sum id snd (run_simulation_mem ?S [0] ?M1 ''X'' 2 ''conservative'')
              = Inr (Some ?hc)"
    by (subst c) simp
  have d: "city_row ''X'' 7 100 0 ''dist_to_front_m'' = Some (Num 100)"
    by (simp add: city_row_def)
  from f have f': "?M1 ! 0 = city_row ''X'' 7 100 0" by simp
  from p a r2 f' w d le show ?thesis by (intro conjI) simp_all
qed

end
